theory Spec2Isabelle
  imports Complex_Main
begin

section \<open>Error taxonomy (core/errors.ts)\<close>

text \<open>
  The twelve codes of \<^verbatim>\<open>VoiceErrorCode\<close> (core/types.ts), in the order of the union type.
\<close>

datatype VoiceErrorCode =
    ABORTED
  | PERMISSION_DENIED
  | NOT_SUPPORTED
  | TTS_NOT_AVAILABLE
  | STT_NOT_AVAILABLE
  | NO_SPEECH
  | AUDIO_CAPTURE_FAILED
  | NETWORK_ERROR
  | TTS_FAILED
  | STT_FAILED
  | CONVERSATION_ERROR
  | INVALID_STATE

fun code_name :: "VoiceErrorCode \<Rightarrow> string" where
  "code_name ABORTED = ''ABORTED''"
| "code_name PERMISSION_DENIED = ''PERMISSION_DENIED''"
| "code_name NOT_SUPPORTED = ''NOT_SUPPORTED''"
| "code_name TTS_NOT_AVAILABLE = ''TTS_NOT_AVAILABLE''"
| "code_name STT_NOT_AVAILABLE = ''STT_NOT_AVAILABLE''"
| "code_name NO_SPEECH = ''NO_SPEECH''"
| "code_name AUDIO_CAPTURE_FAILED = ''AUDIO_CAPTURE_FAILED''"
| "code_name NETWORK_ERROR = ''NETWORK_ERROR''"
| "code_name TTS_FAILED = ''TTS_FAILED''"
| "code_name STT_FAILED = ''STT_FAILED''"
| "code_name CONVERSATION_ERROR = ''CONVERSATION_ERROR''"
| "code_name INVALID_STATE = ''INVALID_STATE''"

text \<open>
  A JavaScript \<^verbatim>\<open>Error\<close> that is not a VoiceError is kept as its name and message.
  The interface \<^verbatim>\<open>VoiceError\<close>: the three flags are optional in the source, so each is
  an option here (\<open>None\<close> is \<^verbatim>\<open>undefined\<close>).
\<close>

record js_error =
  err_name :: string
  err_message :: string

record VoiceError =
  code :: VoiceErrorCode
  name :: string
  message :: string
  cause :: "js_error option"
  err_context :: "(string \<times> string) list option"
  userAction :: "bool option"
  needsPermission :: "bool option"
  recoverable :: "bool option"

record error_options =
  opt_cause :: "js_error option"
  opt_context :: "(string \<times> string) list option"

definition no_options :: error_options where
  "no_options = \<lparr>opt_cause = None, opt_context = None\<rparr>"

text \<open>\<^verbatim>\<open>enrichErrorMetadata\<close>: the switch on \<^verbatim>\<open>error.code\<close>, case by case.\<close>

fun enrichErrorMetadata :: "VoiceError \<Rightarrow> VoiceError" where
  "enrichErrorMetadata e =
     (case code e of
        ABORTED \<Rightarrow> e\<lparr>userAction := Some True, recoverable := Some False\<rparr>
      | NO_SPEECH \<Rightarrow> e\<lparr>userAction := Some False, recoverable := Some True\<rparr>
      | PERMISSION_DENIED \<Rightarrow> e\<lparr>needsPermission := Some True, recoverable := Some True\<rparr>
      | NOT_SUPPORTED \<Rightarrow> e\<lparr>needsPermission := Some True, recoverable := Some True\<rparr>
      | TTS_NOT_AVAILABLE \<Rightarrow> e\<lparr>needsPermission := Some True, recoverable := Some True\<rparr>
      | STT_NOT_AVAILABLE \<Rightarrow> e\<lparr>needsPermission := Some True, recoverable := Some True\<rparr>
      | TTS_FAILED \<Rightarrow> e\<lparr>recoverable := Some True\<rparr>
      | STT_FAILED \<Rightarrow> e\<lparr>recoverable := Some True\<rparr>
      | AUDIO_CAPTURE_FAILED \<Rightarrow> e\<lparr>recoverable := Some True\<rparr>
      | CONVERSATION_ERROR \<Rightarrow> e\<lparr>recoverable := Some True\<rparr>
      | NETWORK_ERROR \<Rightarrow> e\<lparr>recoverable := Some True\<rparr>
      | INVALID_STATE \<Rightarrow> e\<lparr>recoverable := Some False\<rparr>)"

text \<open>
  \<^verbatim>\<open>createVoiceError(code, message, options?)\<close>: a fresh Error carries none of the
  optional fields; cause and context are copied when given, then the error is enriched.
\<close>

definition createVoiceError :: "VoiceErrorCode \<Rightarrow> string \<Rightarrow> error_options \<Rightarrow> VoiceError" where
  "createVoiceError c msg opts =
     enrichErrorMetadata
       \<lparr>code = c,
        name = ''VoiceError['' @ code_name c @ '']'',
        message = msg,
        cause = opt_cause opts,
        err_context = opt_context opts,
        userAction = None,
        needsPermission = None,
        recoverable = None\<rparr>"

text \<open>
  What a \<^verbatim>\<open>catch\<close> clause can receive: a VoiceError (an Error with a string
  \<^verbatim>\<open>code\<close>, which is what \<^verbatim>\<open>isVoiceError\<close> tests), any other Error, \<^verbatim>\<open>null\<close>,
  \<^verbatim>\<open>undefined\<close>, or another primitive value (a string, a number, a boolean), kept as
  \<^verbatim>\<open>String(value)\<close>. The two nullish values stand apart because reading a property of
  them throws a TypeError, where a property of any other primitive reads as undefined.
\<close>

datatype thrown =
    ThrownVoiceError VoiceError
  | ThrownError js_error
  | ThrownNull
  | ThrownUndefined
  | ThrownValue string

fun toVoiceError :: "thrown \<Rightarrow> VoiceErrorCode \<Rightarrow> VoiceError" where
  "toVoiceError (ThrownVoiceError e) defaultCode = e"
| "toVoiceError (ThrownError e) defaultCode =
     (if err_name e = ''AbortError''
      then createVoiceError ABORTED ''Operation was aborted''
             \<lparr>opt_cause = Some e, opt_context = None\<rparr>
      else createVoiceError defaultCode (err_message e)
             \<lparr>opt_cause = Some e, opt_context = None\<rparr>)"
| "toVoiceError ThrownNull defaultCode = createVoiceError defaultCode ''null'' no_options"
| "toVoiceError ThrownUndefined defaultCode = createVoiceError defaultCode ''undefined'' no_options"
| "toVoiceError (ThrownValue v) defaultCode = createVoiceError defaultCode v no_options"

definition isSystemError :: "VoiceError \<Rightarrow> bool" where
  "isSystemError e =
     (code e \<in> set [PERMISSION_DENIED, NOT_SUPPORTED, TTS_NOT_AVAILABLE, STT_NOT_AVAILABLE])"

definition SILENT_ERROR_CODES :: "VoiceErrorCode list" where
  "SILENT_ERROR_CODES = [ABORTED, NO_SPEECH]"

definition shouldLogError :: "VoiceError \<Rightarrow> bool" where
  "shouldLogError e = (code e \<notin> set SILENT_ERROR_CODES)"

text \<open>
  \<^verbatim>\<open>throwVoiceError\<close>: ABORTED returns normally, every other code is thrown.
  \<open>Inl\<close> is the exception.
\<close>

definition throwVoiceError :: "VoiceError \<Rightarrow> thrown + unit" where
  "throwVoiceError e = (if code e = ABORTED then Inr () else Inl (ThrownVoiceError e))"

section \<open>Module state (core/voice.ts)\<close>

datatype role = user | assistant

record TranscriptEntry =
  entry_id :: string
  entry_role :: role
  entry_text :: string
  entry_at :: nat
  final :: bool

datatype session_type = one_shot | continuous

text \<open>
  An \<^verbatim>\<open>AbortController\<close> is a heap object; it is modelled by the number it was allocated
  under, and a session is identified by the controller it owns (each session allocates
  its own).
\<close>

record RecognitionSession =
  rs_type :: session_type
  rs_abortController :: nat
  rs_startedAt :: nat

record SynthesisSession =
  ss_text :: string
  ss_abortController :: nat
  ss_startedAt :: nat
  pausedAt :: "nat option"

record ConversationLoop =
  isRunning :: bool
  cl_abortController :: nat

record SynthesisSnapshot =
  syn_isActive :: bool
  syn_isPaused :: bool
  syn_isAvailable :: bool

record RecognitionSnapshot =
  rec_isActive :: bool
  rec_isAvailable :: bool

record TranscriptSnapshot =
  entries :: "TranscriptEntry list"
  caption :: "string option"

record QonvoSnapshot =
  q_isReady :: bool
  q_error :: "VoiceError option"

record ConversationSnapshot =
  conv_isActive :: bool
  conv_isAvailable :: bool

datatype domain = Synthesis | Recognition | Transcript | Qonvo | Conversation

text \<open>
  A listener is application code of type \<^verbatim>\<open>() => void\<close>. The model keeps its identity
  and whether a call of it returns or throws; what else it does is outside the core.
\<close>

record listener =
  lid :: nat
  lthrows :: "thrown option"

text \<open>
  A JavaScript \<^verbatim>\<open>number\<close>: a finite double, taken as the real it denotes, or one of
  the three values that are not finite. \<^verbatim>\<open>Math.max\<close> answers NaN as soon as one
  argument is NaN.
\<close>

datatype number = Finite real | NaN | Infinity | NegInfinity

fun Math_max :: "number \<Rightarrow> number \<Rightarrow> number" where
  "Math_max NaN y = NaN"
| "Math_max x NaN = NaN"
| "Math_max Infinity y = Infinity"
| "Math_max x Infinity = Infinity"
| "Math_max NegInfinity y = y"
| "Math_max x NegInfinity = x"
| "Math_max (Finite a) (Finite b) = Finite (max a b)"

text \<open>
  \<^verbatim>\<open>setTimeout(handler, timeout)\<close> belongs to the host. In a browser, which is where
  the web engines of this library run, the timeout is a Web IDL \<^verbatim>\<open>long\<close>: the number is
  converted as by \<^verbatim>\<open>ToInt32\<close> (NaN and the infinities give 0, any other number is
  truncated and wrapped into the signed 32 bits), and a negative result counts as 0.
  \<open>timer_delay\<close> is the timeout in milliseconds that the timer is then set to (the
  host's 4 ms floor for deeply nested timers aside).
\<close>

definition ToInt32 :: "number \<Rightarrow> int" where
  "ToInt32 x =
     (case x of
        Finite r \<Rightarrow>
          (let i = (if 0 \<le> r then \<lfloor>r\<rfloor> else \<lceil>r\<rceil>);
               m = i mod 2 ^ 32
           in if 2 ^ 31 \<le> m then m - 2 ^ 32 else m)
      | _ \<Rightarrow> 0)"

definition timer_delay :: "number \<Rightarrow> int" where
  "timer_delay timeout = max 0 (ToInt32 timeout)"

text \<open>
  Everything the core does to the outside is appended to one trace, in program order:
  calls into the two engines, \<^verbatim>\<open>abort()\<close> on a controller, calls of listeners and of
  phrase callbacks, and the calls \<^verbatim>\<open>setTimeout(resolve, timeout)\<close> that the conversation
  loop awaits, each with the number it passes as the timeout.
\<close>

datatype event =
    SttStart nat bool
  | SttStop
  | TtsStart string nat
  | TtsPause
  | TtsResume
  | TtsStop
  | Abort nat
  | Notified domain nat
  | Triggered nat nat
  | Sleep number

text \<open>
  Every \<^verbatim>\<open>console.error\<close> call is one line. \<^verbatim>\<open>logError\<close> writes a \<open>LogLine\<close> (prefix,
  code, message) and then the cause and the context when present, or an \<open>ErrorObjectLine\<close>
  for an error that is no VoiceError; the other lines are the catch clauses around
  listeners and error callbacks.
\<close>

datatype console_line =
    LogLine string VoiceErrorCode string
  | CauseLine js_error
  | ContextLine "(string \<times> string) list"
  | ListenerErrorLine domain thrown
  | CallbackErrorLine string thrown
  | ErrorObjectLine string thrown

record voice_state =
  stt :: bool
  tts :: bool
  transcript :: "TranscriptEntry list"
  isReady :: bool
  isRecognitionAvailable :: bool
  isSynthesisAvailable :: bool
  activeRecognitionSession :: "RecognitionSession option"
  activeSynthesisSession :: "SynthesisSession option"
  activeConversationLoop :: "ConversationLoop option"
  lastError :: "VoiceError option"
  globalOnError :: "(VoiceError \<Rightarrow> thrown option) option"
  synthesisListeners :: "listener list"
  cachedSynthesisSnapshot :: "SynthesisSnapshot option"
  recognitionListeners :: "listener list"
  cachedRecognitionSnapshot :: "RecognitionSnapshot option"
  transcriptListeners :: "listener list"
  cachedTranscriptSnapshot :: "TranscriptSnapshot option"
  qonvoListeners :: "listener list"
  cachedQonvoSnapshot :: "QonvoSnapshot option"
  conversationListeners :: "listener list"
  cachedConversationSnapshot :: "ConversationSnapshot option"
  errorLoggingEnabled :: bool
  nextController :: nat
  events :: "event list"
  console :: "console_line list"

text \<open>The module as loaded: nothing bound, nothing cached, logging on.\<close>

definition initial_state :: voice_state where
  "initial_state =
     \<lparr>stt = False, tts = False, transcript = [],
      isReady = False, isRecognitionAvailable = False, isSynthesisAvailable = False,
      activeRecognitionSession = None, activeSynthesisSession = None,
      activeConversationLoop = None,
      lastError = None, globalOnError = None,
      synthesisListeners = [], cachedSynthesisSnapshot = None,
      recognitionListeners = [], cachedRecognitionSnapshot = None,
      transcriptListeners = [], cachedTranscriptSnapshot = None,
      qonvoListeners = [], cachedQonvoSnapshot = None,
      conversationListeners = [], cachedConversationSnapshot = None,
      errorLoggingEnabled = True, nextController = 0, events = [], console = []\<rparr>"

definition emit :: "event \<Rightarrow> voice_state \<Rightarrow> voice_state" where
  "emit e s = s\<lparr>events := events s @ [e]\<rparr>"

definition console_error :: "console_line \<Rightarrow> voice_state \<Rightarrow> voice_state" where
  "console_error l s = s\<lparr>console := console s @ [l]\<rparr>"

text \<open>\<^verbatim>\<open>new AbortController()\<close> and \<^verbatim>\<open>controller.abort()\<close>.\<close>

definition newAbortController :: "voice_state \<Rightarrow> nat \<times> voice_state" where
  "newAbortController s = (nextController s, s\<lparr>nextController := Suc (nextController s)\<rparr>)"

definition abort :: "nat \<Rightarrow> voice_state \<Rightarrow> voice_state" where
  "abort c s = emit (Abort c) s"

definition aborted :: "voice_state \<Rightarrow> nat \<Rightarrow> bool" where
  "aborted s c = (Abort c \<in> set (events s))"

subsection \<open>Logging (core/errors.ts)\<close>

definition setErrorLogging :: "bool \<Rightarrow> voice_state \<Rightarrow> voice_state" where
  "setErrorLogging enabled s = s\<lparr>errorLoggingEnabled := enabled\<rparr>"

definition log_prefix :: "string \<Rightarrow> string" where
  "log_prefix ctx = (if ctx = [] then ''[Qonvo]'' else ''[Qonvo:'' @ ctx @ '']'')"

text \<open>
  \<^verbatim>\<open>logError(error, context)\<close>: on a VoiceError (\<open>logError\<close>), and on any other
  thrown value (\<open>logError_other\<close>), for which \<^verbatim>\<open>isVoiceError\<close> is false.
\<close>

definition logError_other :: "thrown \<Rightarrow> string \<Rightarrow> voice_state \<Rightarrow> voice_state" where
  "logError_other t ctx s =
     (if \<not> errorLoggingEnabled s then s
      else console_error (ErrorObjectLine (log_prefix ctx) t) s)"

definition logError :: "VoiceError \<Rightarrow> string \<Rightarrow> voice_state \<Rightarrow> voice_state" where
  "logError e ctx s =
     (if \<not> errorLoggingEnabled s then s
      else if \<not> shouldLogError e then s
      else
        let s1 = console_error (LogLine (log_prefix ctx) (code e) (message e)) s;
            s2 = (case cause e of Some c \<Rightarrow> console_error (CauseLine c) s1 | None \<Rightarrow> s1)
        in (case err_context e of Some k \<Rightarrow> console_error (ContextLine k) s2 | None \<Rightarrow> s2))"

subsection \<open>Listeners and snapshot caches\<close>

text \<open>
  A \<^verbatim>\<open>Set\<close> of listeners iterates in insertion order and holds each listener once.
\<close>

definition set_add :: "'a \<Rightarrow> 'a list \<Rightarrow> 'a list" where
  "set_add x xs = (if x \<in> set xs then xs else xs @ [x])"

definition set_delete :: "'a \<Rightarrow> 'a list \<Rightarrow> 'a list" where
  "set_delete x xs = filter (\<lambda>y. y \<noteq> x) xs"

text \<open>
  The loop \<^verbatim>\<open>for (const listener of listeners) { try { listener() } catch { console.error } }\<close>
  of the \<^verbatim>\<open>notify*\<close> functions.
\<close>

fun call_listeners_caught :: "domain \<Rightarrow> listener list \<Rightarrow> voice_state \<Rightarrow> voice_state" where
  "call_listeners_caught d [] s = s"
| "call_listeners_caught d (l # ls) s =
     (let s1 = emit (Notified d (lid l)) s
      in call_listeners_caught d ls
           (case lthrows l of
              None \<Rightarrow> s1
            | Some t \<Rightarrow> console_error (ListenerErrorLine d t) s1))"

text \<open>
  The loop \<^verbatim>\<open>for (const listener of listeners) { listener() }\<close> of the two
  \<^verbatim>\<open>setActive*Session\<close> functions: the first exception leaves the loop and the function.
\<close>

fun call_listeners :: "domain \<Rightarrow> listener list \<Rightarrow> voice_state \<Rightarrow> thrown option \<times> voice_state" where
  "call_listeners d [] s = (None, s)"
| "call_listeners d (l # ls) s =
     (let s1 = emit (Notified d (lid l)) s
      in case lthrows l of
           None \<Rightarrow> call_listeners d ls s1
         | Some t \<Rightarrow> (Some t, s1))"

definition subscribeToSynthesis :: "listener \<Rightarrow> voice_state \<Rightarrow> voice_state" where
  "subscribeToSynthesis l s = s\<lparr>synthesisListeners := set_add l (synthesisListeners s)\<rparr>"

definition subscribeToRecognition :: "listener \<Rightarrow> voice_state \<Rightarrow> voice_state" where
  "subscribeToRecognition l s = s\<lparr>recognitionListeners := set_add l (recognitionListeners s)\<rparr>"

definition subscribeToTranscript :: "listener \<Rightarrow> voice_state \<Rightarrow> voice_state" where
  "subscribeToTranscript l s = s\<lparr>transcriptListeners := set_add l (transcriptListeners s)\<rparr>"

definition subscribeToQonvo :: "listener \<Rightarrow> voice_state \<Rightarrow> voice_state" where
  "subscribeToQonvo l s = s\<lparr>qonvoListeners := set_add l (qonvoListeners s)\<rparr>"

definition subscribeToConversation :: "listener \<Rightarrow> voice_state \<Rightarrow> voice_state" where
  "subscribeToConversation l s = s\<lparr>conversationListeners := set_add l (conversationListeners s)\<rparr>"

definition getSynthesisSnapshot :: "voice_state \<Rightarrow> SynthesisSnapshot \<times> voice_state" where
  "getSynthesisSnapshot s =
     (case cachedSynthesisSnapshot s of
        Some c \<Rightarrow> (c, s)
      | None \<Rightarrow>
          let snap = \<lparr>syn_isActive = (activeSynthesisSession s \<noteq> None),
                      syn_isPaused =
                        (case activeSynthesisSession s of
                           None \<Rightarrow> False
                         | Some a \<Rightarrow> pausedAt a \<noteq> None),
                      syn_isAvailable = isSynthesisAvailable s\<rparr>
          in (snap, s\<lparr>cachedSynthesisSnapshot := Some snap\<rparr>))"

definition getRecognitionSnapshot :: "voice_state \<Rightarrow> RecognitionSnapshot \<times> voice_state" where
  "getRecognitionSnapshot s =
     (case cachedRecognitionSnapshot s of
        Some c \<Rightarrow> (c, s)
      | None \<Rightarrow>
          let snap = \<lparr>rec_isActive = (activeRecognitionSession s \<noteq> None),
                      rec_isAvailable = isRecognitionAvailable s\<rparr>
          in (snap, s\<lparr>cachedRecognitionSnapshot := Some snap\<rparr>))"

definition getTranscriptSnapshot :: "voice_state \<Rightarrow> TranscriptSnapshot \<times> voice_state" where
  "getTranscriptSnapshot s =
     (case cachedTranscriptSnapshot s of
        Some c \<Rightarrow> (c, s)
      | None \<Rightarrow>
          let nonFinalEntries = filter (\<lambda>t. \<not> final t) (transcript s);
              cap = (if length nonFinalEntries > 0
                     then Some (entry_text (nonFinalEntries ! (length nonFinalEntries - 1)))
                     else None);
              snap = \<lparr>entries = filter (\<lambda>t. final t) (transcript s), caption = cap\<rparr>
          in (snap, s\<lparr>cachedTranscriptSnapshot := Some snap\<rparr>))"

definition getQonvoSnapshot :: "voice_state \<Rightarrow> QonvoSnapshot \<times> voice_state" where
  "getQonvoSnapshot s =
     (case cachedQonvoSnapshot s of
        Some c \<Rightarrow> (c, s)
      | None \<Rightarrow>
          let snap = \<lparr>q_isReady = isReady s, q_error = lastError s\<rparr>
          in (snap, s\<lparr>cachedQonvoSnapshot := Some snap\<rparr>))"

definition getConversationSnapshot :: "voice_state \<Rightarrow> ConversationSnapshot \<times> voice_state" where
  "getConversationSnapshot s =
     (case cachedConversationSnapshot s of
        Some c \<Rightarrow> (c, s)
      | None \<Rightarrow>
          let snap = \<lparr>conv_isActive = (activeConversationLoop s \<noteq> None),
                      conv_isAvailable = (isSynthesisAvailable s \<and> isRecognitionAvailable s)\<rparr>
          in (snap, s\<lparr>cachedConversationSnapshot := Some snap\<rparr>))"

definition setActiveSynthesisSession ::
  "SynthesisSession option \<Rightarrow> voice_state \<Rightarrow> thrown option \<times> voice_state" where
  "setActiveSynthesisSession session s =
     call_listeners Synthesis (synthesisListeners s)
       (s\<lparr>activeSynthesisSession := session, cachedSynthesisSnapshot := None\<rparr>)"

definition setActiveRecognitionSession ::
  "RecognitionSession option \<Rightarrow> voice_state \<Rightarrow> thrown option \<times> voice_state" where
  "setActiveRecognitionSession session s =
     call_listeners Recognition (recognitionListeners s)
       (s\<lparr>activeRecognitionSession := session, cachedRecognitionSnapshot := None\<rparr>)"

definition notifyConversation :: "voice_state \<Rightarrow> voice_state" where
  "notifyConversation s =
     call_listeners_caught Conversation (conversationListeners s)
       (s\<lparr>cachedConversationSnapshot := None\<rparr>)"

definition notifySynthesis :: "voice_state \<Rightarrow> voice_state" where
  "notifySynthesis s =
     call_listeners_caught Synthesis (synthesisListeners s)
       (s\<lparr>cachedSynthesisSnapshot := None\<rparr>)"

definition notifyRecognition :: "voice_state \<Rightarrow> voice_state" where
  "notifyRecognition s =
     call_listeners_caught Recognition (recognitionListeners s)
       (s\<lparr>cachedRecognitionSnapshot := None\<rparr>)"

definition notifyTranscript :: "voice_state \<Rightarrow> voice_state" where
  "notifyTranscript s =
     call_listeners_caught Transcript (transcriptListeners s)
       (s\<lparr>cachedTranscriptSnapshot := None\<rparr>)"

definition notifyQonvo :: "voice_state \<Rightarrow> voice_state" where
  "notifyQonvo s =
     call_listeners_caught Qonvo (qonvoListeners s)
       (s\<lparr>cachedQonvoSnapshot := None\<rparr>)"

definition notifyAll :: "voice_state \<Rightarrow> voice_state" where
  "notifyAll s = notifyQonvo (notifyTranscript (notifyRecognition (notifySynthesis s)))"

subsection \<open>Error state\<close>

definition setError :: "VoiceError option \<Rightarrow> voice_state \<Rightarrow> voice_state" where
  "setError error s = notifyQonvo (s\<lparr>lastError := error\<rparr>)"

definition setGlobalOnError ::
  "(VoiceError \<Rightarrow> thrown option) option \<Rightarrow> voice_state \<Rightarrow> voice_state" where
  "setGlobalOnError callback s = s\<lparr>globalOnError := callback\<rparr>"

definition clearError :: "voice_state \<Rightarrow> voice_state" where
  "clearError s = notifyQonvo (s\<lparr>lastError := None\<rparr>)"

text \<open>
  An error callback is application code \<^verbatim>\<open>(error) => void\<close>: given the error it returns
  (\<open>None\<close>) or throws. \<^verbatim>\<open>handleError\<close> records the error unless its code is ABORTED, then
  calls the per-operation callback and the global one, each inside its own try/catch.
\<close>

definition call_error_callback ::
  "string \<Rightarrow> (VoiceError \<Rightarrow> thrown option) option \<Rightarrow> VoiceError \<Rightarrow> voice_state \<Rightarrow> voice_state" where
  "call_error_callback label cb error s =
     (case cb of
        None \<Rightarrow> s
      | Some f \<Rightarrow>
          (case f error of
             None \<Rightarrow> s
           | Some t \<Rightarrow> console_error (CallbackErrorLine label t) s))"

definition handleError ::
  "VoiceError \<Rightarrow> (VoiceError \<Rightarrow> thrown option) option \<Rightarrow> voice_state \<Rightarrow> voice_state" where
  "handleError error onError s =
     (let s1 = (if code error \<noteq> ABORTED then setError (Some error) s else s);
          s2 = call_error_callback ''[Qonvo] Error in onError callback:'' onError error s1
      in call_error_callback ''[Qonvo] Error in global onError callback:''
           (globalOnError s2) error s2)"

text \<open>
  \<^verbatim>\<open>processVoiceError(error, context, options)\<close> of core/errors.ts. The handler is a
  parameter there; the core always passes \<^verbatim>\<open>handleError\<close>. The defaults of the
  destructuring are \<^verbatim>\<open>defaultCode = 'TTS_FAILED'\<close> and \<^verbatim>\<open>shouldThrow = true\<close>.
\<close>

record process_options =
  po_defaultCode :: "VoiceErrorCode option"
  po_onError :: "(VoiceError \<Rightarrow> thrown option) option"
  po_handleError ::
    "(VoiceError \<Rightarrow> (VoiceError \<Rightarrow> thrown option) option \<Rightarrow> voice_state \<Rightarrow> voice_state) option"
  po_shouldThrow :: "bool option"

definition processVoiceError ::
  "thrown \<Rightarrow> string \<Rightarrow> process_options \<Rightarrow> voice_state \<Rightarrow> (thrown + VoiceError) \<times> voice_state" where
  "processVoiceError error ctx options s =
     (let defaultCode = (case po_defaultCode options of Some c \<Rightarrow> c | None \<Rightarrow> TTS_FAILED);
          shouldThrow = (case po_shouldThrow options of Some b \<Rightarrow> b | None \<Rightarrow> True);
          voiceError = toVoiceError error defaultCode;
          s1 = (case po_handleError options of
                  Some errorHandler \<Rightarrow> errorHandler voiceError (po_onError options) s
                | None \<Rightarrow> s);
          s2 = (if shouldLogError voiceError then logError voiceError ctx s1 else s1)
      in if shouldThrow
         then (case throwVoiceError voiceError of
                 Inl t \<Rightarrow> (Inl t, s2)
               | Inr _ \<Rightarrow> (Inr voiceError, s2))
         else (Inr voiceError, s2))"

subsection \<open>Transcript management\<close>

text \<open>
  \<^verbatim>\<open>generateId()\<close> and \<^verbatim>\<open>Date.now()\<close> read the clock and the random generator; their
  values are arguments of the model (\<open>newId\<close>, \<open>now\<close>).
  \<^verbatim>\<open>Array.prototype.findIndex\<close> returns the first index that satisfies the test, \<open>None\<close>
  standing for -1.
\<close>

fun findIndex :: "('a \<Rightarrow> bool) \<Rightarrow> 'a list \<Rightarrow> nat option" where
  "findIndex P [] = None"
| "findIndex P (x # xs) = (if P x then Some 0 else map_option Suc (findIndex P xs))"

definition addInterimTranscript ::
  "role \<Rightarrow> string \<Rightarrow> string \<Rightarrow> nat \<Rightarrow> voice_state \<Rightarrow> voice_state" where
  "addInterimTranscript r txt newId now s =
     notifyTranscript
       (case findIndex (\<lambda>t. entry_role t = r \<and> \<not> final t) (transcript s) of
          Some interimIndex \<Rightarrow>
            s\<lparr>transcript := (transcript s)
                [interimIndex :=
                   \<lparr>entry_id = entry_id (transcript s ! interimIndex),
                    entry_role = r, entry_text = txt, entry_at = now, final = False\<rparr>]\<rparr>
        | None \<Rightarrow>
            s\<lparr>transcript := transcript s @
                [\<lparr>entry_id = newId, entry_role = r, entry_text = txt,
                  entry_at = now, final = False\<rparr>]\<rparr>)"

definition addFinalTranscript ::
  "role \<Rightarrow> string \<Rightarrow> string \<Rightarrow> nat \<Rightarrow> voice_state \<Rightarrow> voice_state" where
  "addFinalTranscript r txt newId now s =
     notifyTranscript
       (s\<lparr>transcript :=
            filter (\<lambda>t. \<not> (entry_role t = r \<and> \<not> final t)) (transcript s) @
            [\<lparr>entry_id = newId, entry_role = r, entry_text = txt,
              entry_at = now, final = True\<rparr>]\<rparr>)"

definition clearTranscript :: "voice_state \<Rightarrow> voice_state" where
  "clearTranscript s = notifyTranscript (s\<lparr>transcript := []\<rparr>)"

text \<open>
  \<^verbatim>\<open>setEngines\<close> binds the two engines (here: whether each is non-null).
  \<^verbatim>\<open>refreshAvailability\<close> awaits the two \<^verbatim>\<open>availability()\<close> calls; their \<^verbatim>\<open>stt\<close> and
  \<^verbatim>\<open>tts\<close> answers are arguments, and an unbound engine answers false.
\<close>

definition setEngines :: "bool \<Rightarrow> bool \<Rightarrow> voice_state \<Rightarrow> voice_state" where
  "setEngines sttEngine ttsEngine s = notifyAll (s\<lparr>stt := sttEngine, tts := ttsEngine\<rparr>)"

definition refreshAvailability :: "bool \<Rightarrow> bool \<Rightarrow> voice_state \<Rightarrow> voice_state" where
  "refreshAvailability sttAvail ttsAvail s =
     notifyQonvo (notifyRecognition (notifySynthesis
       (s\<lparr>isReady := True,
          isRecognitionAvailable := (stt s \<and> sttAvail),
          isSynthesisAvailable := (tts s \<and> ttsAvail)\<rparr>)))"

section \<open>Synthesis session manager\<close>

text \<open>
  A call into an engine returns a promise; how it settles is the engine's answer and an
  argument of the model. Unless said otherwise an exported function is modelled as run
  to completion, with no other task of the application scheduled while it awaits.
\<close>

datatype outcome = Resolved | Rejected thrown

text \<open>
  \<^verbatim>\<open>SynthesizeOptions\<close>: rate, pitch, voice and lang are handed to the engine untouched
  and never read by the core; the model keeps the two fields the core reads.
\<close>

record SynthesizeOptions =
  so_signal :: "nat option"
  so_onError :: "(VoiceError \<Rightarrow> thrown option) option"

definition default_synthesize_options :: SynthesizeOptions where
  "default_synthesize_options = \<lparr>so_signal = None, so_onError = None\<rparr>"

definition stopSynthesis :: "outcome \<Rightarrow> voice_state \<Rightarrow> (thrown + unit) \<times> voice_state" where
  "stopSynthesis stopped s =
     (if \<not> tts s then (Inr (), s)
      else case activeSynthesisSession s of
        None \<Rightarrow> (Inr (), s)
      | Some session \<Rightarrow>
          (case setActiveSynthesisSession None s of
             (Some t, s1) \<Rightarrow> (Inl t, s1)
           | (None, s1) \<Rightarrow>
               let s2 = emit TtsStop (abort (ss_abortController session) s1)
               in (case stopped of
                     Resolved \<Rightarrow> (Inr (), s2)
                   | Rejected t \<Rightarrow>
                       let voiceError = toVoiceError t TTS_FAILED
                       in (Inr (),
                           if shouldLogError voiceError
                           then logError voiceError ''stopSynthesis'' s2 else s2))))"

text \<open>
  The catch clause shared by \<^verbatim>\<open>pauseSynthesis\<close> and \<^verbatim>\<open>resumeSynthesis\<close>: convert, log,
  rethrow unless ABORTED.
\<close>

definition synthesis_catch ::
  "string \<Rightarrow> thrown \<Rightarrow> voice_state \<Rightarrow> (thrown + unit) \<times> voice_state" where
  "synthesis_catch ctx t s =
     (let voiceError = toVoiceError t TTS_FAILED
      in (throwVoiceError voiceError, logError voiceError ctx s))"

definition pauseSynthesis :: "outcome \<Rightarrow> nat \<Rightarrow> voice_state \<Rightarrow> (thrown + unit) \<times> voice_state" where
  "pauseSynthesis paused now s =
     (if \<not> tts s \<or> activeSynthesisSession s = None then (Inr (), s)
      else
        let s1 = emit TtsPause s
        in case paused of
             Rejected t \<Rightarrow> synthesis_catch ''pause'' t s1
           | Resolved \<Rightarrow>
               (case activeSynthesisSession s1 of
                  None \<Rightarrow> (Inr (), s1)
                | Some session \<Rightarrow>
                    (case setActiveSynthesisSession
                            (Some (session\<lparr>pausedAt := Some now\<rparr>)) s1 of
                       (Some t, s2) \<Rightarrow> synthesis_catch ''pause'' t s2
                     | (None, s2) \<Rightarrow> (Inr (), s2))))"

text \<open>
  The guard of \<^verbatim>\<open>resumeSynthesis\<close> is \<^verbatim>\<open>!activeSynthesisSession?.pausedAt\<close>: it returns
  when there is no session, when \<^verbatim>\<open>pausedAt\<close> is undefined, and when it is the number 0.
\<close>

definition resumeSynthesis :: "outcome \<Rightarrow> voice_state \<Rightarrow> (thrown + unit) \<times> voice_state" where
  "resumeSynthesis resumed s =
     (if \<not> tts s
         \<or> (case activeSynthesisSession s of
               None \<Rightarrow> True
             | Some session \<Rightarrow>
                 (case pausedAt session of None \<Rightarrow> True | Some p \<Rightarrow> p = 0))
      then (Inr (), s)
      else
        let s1 = emit TtsResume s
        in case resumed of
             Rejected t \<Rightarrow> synthesis_catch ''resume'' t s1
           | Resolved \<Rightarrow>
               (case activeSynthesisSession s1 of
                  None \<Rightarrow> (Inr (), s1)
                | Some session \<Rightarrow>
                    (case setActiveSynthesisSession
                            (Some (session\<lparr>pausedAt := None\<rparr>)) s1 of
                       (Some t, s2) \<Rightarrow> synthesis_catch ''resume'' t s2
                     | (None, s2) \<Rightarrow> (Inr (), s2))))"

text \<open>
  The \<^verbatim>\<open>finally\<close> block of \<^verbatim>\<open>startSynthesis\<close>: the session is cleared when it is still
  the active one (object identity, here the controller it owns); an exception of the
  block replaces the pending result.
\<close>

definition startSynthesis_finally ::
  "nat \<Rightarrow> (thrown + unit) \<times> voice_state \<Rightarrow> (thrown + unit) \<times> voice_state" where
  "startSynthesis_finally c rs =
     (case rs of (r, s) \<Rightarrow>
        (case activeSynthesisSession s of
           None \<Rightarrow> (r, s)
         | Some a \<Rightarrow>
             if ss_abortController a = c
             then (case setActiveSynthesisSession None s of
                     (Some t, s1) \<Rightarrow> (Inl t, s1)
                   | (None, s1) \<Rightarrow> (r, s1))
             else (r, s)))"

text \<open>
  \<^verbatim>\<open>startSynthesis(text, options)\<close>, in the two parts that the await of
  \<^verbatim>\<open>tts.start\<close> separates. \<open>startSynthesis_begin\<close> runs up to the engine call and
  returns the new session's controller; \<open>stopped\<close> answers the \<^verbatim>\<open>tts.stop()\<close> of a prior
  session, \<open>now\<close> is the session's \<^verbatim>\<open>startedAt\<close>, \<open>newId\<close> and \<open>entryAt\<close> are the id and
  the time of the transcript entry. \<open>startSynthesis_settle\<close> is the catch clause and the
  finally block, run when the engine's promise settles as \<open>started\<close>.
  \<open>startSynthesis\<close> is the call run to completion.
\<close>

definition startSynthesis_begin ::
  "string \<Rightarrow> SynthesizeOptions \<Rightarrow> outcome \<Rightarrow> nat \<Rightarrow> string \<Rightarrow> nat \<Rightarrow>
   voice_state \<Rightarrow> (thrown + nat) \<times> voice_state" where
  "startSynthesis_begin txt options stopped now newId entryAt s =
     (if \<not> tts s
      then (Inl (ThrownVoiceError
                  (createVoiceError TTS_NOT_AVAILABLE ''Text-to-speech not available'' no_options)), s)
      else
        case (if activeSynthesisSession s \<noteq> None then stopSynthesis stopped s else (Inr (), s)) of
          (Inl t, s0) \<Rightarrow> (Inl t, s0)
        | (Inr _, s0) \<Rightarrow>
            (case newAbortController s0 of (abortController, s1) \<Rightarrow>
               let signal = (case so_signal options of Some g \<Rightarrow> g | None \<Rightarrow> abortController);
                   session = \<lparr>ss_text = txt, ss_abortController = abortController,
                              ss_startedAt = now, pausedAt = None\<rparr>
               in case setActiveSynthesisSession (Some session) s1 of
                    (Some t, s2) \<Rightarrow> (Inl t, s2)
                  | (None, s2) \<Rightarrow>
                      (Inr abortController,
                       emit (TtsStart txt signal)
                         (addFinalTranscript assistant txt newId entryAt (setError None s2)))))"

definition startSynthesis_settle ::
  "SynthesizeOptions \<Rightarrow> nat \<Rightarrow> outcome \<Rightarrow> voice_state \<Rightarrow> (thrown + unit) \<times> voice_state" where
  "startSynthesis_settle options abortController started s =
     startSynthesis_finally abortController
       (case started of
          Resolved \<Rightarrow> (Inr (), s)
        | Rejected error \<Rightarrow>
            (case processVoiceError error ''startSynthesis''
                    \<lparr>po_defaultCode = Some TTS_FAILED,
                     po_onError = so_onError options,
                     po_handleError = Some handleError,
                     po_shouldThrow = Some True\<rparr> s of
               (Inl t, s1) \<Rightarrow> (Inl t, s1)
             | (Inr _, s1) \<Rightarrow> (Inr (), s1)))"

definition startSynthesis ::
  "string \<Rightarrow> SynthesizeOptions \<Rightarrow> outcome \<Rightarrow> outcome \<Rightarrow> nat \<Rightarrow> string \<Rightarrow> nat \<Rightarrow>
   voice_state \<Rightarrow> (thrown + unit) \<times> voice_state" where
  "startSynthesis txt options stopped started now newId entryAt s =
     (case startSynthesis_begin txt options stopped now newId entryAt s of
        (Inl t, s1) \<Rightarrow> (Inl t, s1)
      | (Inr abortController, s1) \<Rightarrow> startSynthesis_settle options abortController started s1)"

section \<open>Recognition session manager\<close>

subsection \<open>Phrase matching\<close>

text \<open>
  \<^verbatim>\<open>matchPhrase(text, phrase)\<close> is
  \<^verbatim>\<open>normalize(text).includes(normalize(phrase))\<close> with
  \<^verbatim>\<open>normalize = s => s.trim().toLowerCase().replace(/\s+/g, ' ')\<close>.
  A character of the model is a code unit from U+0000 to U+00FF. In this range the
  white space of \<^verbatim>\<open>trim\<close> and of \<^verbatim>\<open>\s\<close> is the same set: tab, line feed, vertical tab,
  form feed, carriage return, space and the no-break space U+00A0. \<^verbatim>\<open>toLowerCase\<close>
  adds 32 to A..Z (U+0041 to U+005A) and to the capital letters U+00C0 to U+00DE, the
  multiplication sign U+00D7 excepted, and leaves every other character of the range.
\<close>

definition is_space :: "char \<Rightarrow> bool" where
  "is_space c =
     (c \<in> set [CHR '' '', CHR 0x09, CHR 0x0A, CHR 0x0B, CHR 0x0C, CHR 0x0D, CHR 0xA0])"

definition trim :: "string \<Rightarrow> string" where
  "trim s = rev (dropWhile is_space (rev (dropWhile is_space s)))"

definition is_upper :: "char \<Rightarrow> bool" where
  "is_upper c =
     (let n = (of_char c :: nat)
      in (65 \<le> n \<and> n \<le> 90) \<or> (192 \<le> n \<and> n \<le> 222 \<and> n \<noteq> 215))"

definition lower_char :: "char \<Rightarrow> char" where
  "lower_char c = (if is_upper c then char_of (of_char c + (32 :: nat)) else c)"

definition toLowerCase :: "string \<Rightarrow> string" where
  "toLowerCase s = map lower_char s"

text \<open>\<^verbatim>\<open>replace(/\s+/g, ' ')\<close>: every maximal run of white space becomes one space.\<close>

function collapse_spaces :: "string \<Rightarrow> string" where
  "collapse_spaces [] = []"
| "collapse_spaces (c # cs) =
     (if is_space c then CHR '' '' # collapse_spaces (dropWhile is_space cs)
      else c # collapse_spaces cs)"
  by pat_completeness auto
termination
  by (relation "measure length") (auto simp: length_dropWhile_le less_Suc_eq_le)

definition normalize :: "string \<Rightarrow> string" where
  "normalize s = collapse_spaces (toLowerCase (trim s))"

text \<open>\<^verbatim>\<open>String.prototype.includes\<close>: the needle occurs as a contiguous substring.\<close>

fun starts_with :: "'a list \<Rightarrow> 'a list \<Rightarrow> bool" where
  "starts_with xs [] = True"
| "starts_with [] (y # ys) = False"
| "starts_with (x # xs) (y # ys) = (x = y \<and> starts_with xs ys)"

fun string_includes :: "'a list \<Rightarrow> 'a list \<Rightarrow> bool" where
  "string_includes [] needle = (needle = [])"
| "string_includes (x # xs) needle = (starts_with (x # xs) needle \<or> string_includes xs needle)"

definition matchPhrase :: "string \<Rightarrow> string \<Rightarrow> bool" where
  "matchPhrase txt phrase = string_includes (normalize txt) (normalize phrase)"

subsection \<open>Stopping recognition\<close>

definition stopRecognition :: "outcome \<Rightarrow> voice_state \<Rightarrow> (thrown + unit) \<times> voice_state" where
  "stopRecognition stopped s =
     (if \<not> stt s then (Inr (), s)
      else case activeRecognitionSession s of
        None \<Rightarrow> (Inr (), s)
      | Some session \<Rightarrow>
          (case setActiveRecognitionSession None s of
             (Some t, s1) \<Rightarrow> (Inl t, s1)
           | (None, s1) \<Rightarrow>
               let s2 = emit SttStop (abort (rs_abortController session) s1)
               in (case stopped of
                     Resolved \<Rightarrow> (Inr (), s2)
                   | Rejected t \<Rightarrow>
                       let voiceError = toVoiceError t STT_FAILED
                       in (Inr (),
                           if shouldLogError voiceError
                           then logError voiceError ''stopRecognition'' s2 else s2))))"

subsection \<open>The recognition controller\<close>

datatype recognize_method = once | continuous_method

record RecognizeOptions =
  ro_method :: "recognize_method option"
  ro_caption :: "bool option"
  ro_signal :: "nat option"
  ro_onError :: "(VoiceError \<Rightarrow> thrown option) option"

definition default_recognize_options :: RecognizeOptions where
  "default_recognize_options =
     \<lparr>ro_method = None, ro_caption = None, ro_signal = None, ro_onError = None\<rparr>"

text \<open>
  \<^verbatim>\<open>options.caption ? handler : undefined\<close>: an absent caption option is falsy.
\<close>

definition caption_enabled :: "RecognizeOptions \<Rightarrow> bool" where
  "caption_enabled options = (case ro_caption options of Some b \<Rightarrow> b | None \<Rightarrow> False)"

record RecognitionResult =
  rr_text :: string
  rr_at :: nat
  rr_confidence :: "real option"

text \<open>
  A phrase callback is application code \<^verbatim>\<open>(controller) => void\<close>: the model keeps its
  identity and whether a call of it returns or throws. The controller's promise is
  settled at most once; later \<^verbatim>\<open>resolve\<close> and \<^verbatim>\<open>reject\<close> calls do nothing.
\<close>

record trigger_callback =
  cb_id :: nat
  cb_throws :: "thrown option"

datatype promise_state = Pending | Fulfilled RecognitionResult | RejectedWith VoiceError

definition resolveResult :: "RecognitionResult \<Rightarrow> promise_state \<Rightarrow> promise_state" where
  "resolveResult r p = (case p of Pending \<Rightarrow> Fulfilled r | _ \<Rightarrow> p)"

definition rejectResult :: "VoiceError \<Rightarrow> promise_state \<Rightarrow> promise_state" where
  "rejectResult e p = (case p of Pending \<Rightarrow> RejectedWith e | _ \<Rightarrow> p)"

record controller =
  triggers :: "(string \<times> trigger_callback) list"
  session :: RecognitionSession
  promise :: promise_state
  ctl_method :: recognize_method
  ctl_options :: RecognizeOptions

text \<open>
  \<^verbatim>\<open>Map.prototype.set\<close>: a key already present keeps its place and takes the new value,
  a new key goes to the end; the map iterates in that order.
\<close>

fun map_set :: "'k \<Rightarrow> 'v \<Rightarrow> ('k \<times> 'v) list \<Rightarrow> ('k \<times> 'v) list" where
  "map_set k v [] = [(k, v)]"
| "map_set k v ((k', v') # m) = (if k' = k then (k, v) # m else (k', v') # map_set k v m)"

text \<open>\<^verbatim>\<open>controller.when(phrase).then(callback)\<close>.\<close>

definition when_then :: "string \<Rightarrow> trigger_callback \<Rightarrow> controller \<Rightarrow> controller" where
  "when_then phrase callback ctl = ctl\<lparr>triggers := map_set phrase callback (triggers ctl)\<rparr>"

text \<open>
  The loop \<^verbatim>\<open>for (const [phrase, callback] of this.triggers) if (matchPhrase(text, phrase)) callback(this)\<close>;
  the controller passed to the callback is recorded by its session's controller number.
  There is no try/catch around the call: an exception leaves the loop.
\<close>

fun check_triggers ::
  "nat \<Rightarrow> string \<Rightarrow> (string \<times> trigger_callback) list \<Rightarrow> voice_state \<Rightarrow> thrown option \<times> voice_state" where
  "check_triggers this txt [] s = (None, s)"
| "check_triggers this txt ((phrase, callback) # rest) s =
     (if matchPhrase txt phrase
      then (let s1 = emit (Triggered (cb_id callback) this) s
            in case cb_throws callback of
                 None \<Rightarrow> check_triggers this txt rest s1
               | Some t \<Rightarrow> (Some t, s1))
      else check_triggers this txt rest s)"

text \<open>
  The constructor of \<^verbatim>\<open>UnifiedRecognitionController\<close>: session record, publication, error
  reset, then the engine's \<^verbatim>\<open>start\<close> with the handlers below.
\<close>

definition new_UnifiedRecognitionController ::
  "recognize_method \<Rightarrow> RecognizeOptions \<Rightarrow> nat \<Rightarrow> voice_state \<Rightarrow> (thrown + controller) \<times> voice_state" where
  "new_UnifiedRecognitionController method options now s =
     (case newAbortController s of (abortController, s1) \<Rightarrow>
        let sess = \<lparr>rs_type = (if method = once then one_shot else continuous),
                   rs_abortController = abortController, rs_startedAt = now\<rparr>
        in case setActiveRecognitionSession (Some sess) s1 of
             (Some t, s2) \<Rightarrow> (Inl t, s2)
           | (None, s2) \<Rightarrow>
               (Inr \<lparr>triggers = [], session = sess, promise = Pending,
                     ctl_method = method, ctl_options = options\<rparr>,
                emit (SttStart abortController (caption_enabled options)) (setError None s2)))"

text \<open>
  \<^verbatim>\<open>startRecognition(options)\<close>. When a session is active the source clears it and then
  calls \<^verbatim>\<open>stopRecognition().catch(() => {})\<close>, whose result is discarded; \<open>stopped\<close> is the
  answer \<^verbatim>\<open>stt.stop()\<close> would give inside that call.
\<close>

definition startRecognition ::
  "RecognizeOptions \<Rightarrow> outcome \<Rightarrow> nat \<Rightarrow> voice_state \<Rightarrow> (thrown + controller) \<times> voice_state" where
  "startRecognition options stopped now s =
     (if \<not> stt s
      then (Inl (ThrownVoiceError
                  (createVoiceError STT_NOT_AVAILABLE ''Speech recognition not available'' no_options)), s)
      else
        case (if activeRecognitionSession s \<noteq> None
              then (case setActiveRecognitionSession None s of
                      (Some t, s1) \<Rightarrow> (Some t, s1)
                    | (None, s1) \<Rightarrow> (None, snd (stopRecognition stopped s1)))
              else (None, s)) of
          (Some t, s2) \<Rightarrow> (Inl t, s2)
        | (None, s2) \<Rightarrow>
            new_UnifiedRecognitionController
              (case ro_method options of Some m \<Rightarrow> m | None \<Rightarrow> continuous_method) options now s2)"

text \<open>\<^verbatim>\<open>controller.stop()\<close> is \<^verbatim>\<open>stopRecognition()\<close>.\<close>

definition controller_stop :: "outcome \<Rightarrow> voice_state \<Rightarrow> (thrown + unit) \<times> voice_state" where
  "controller_stop stopped s = stopRecognition stopped s"

text \<open>
  The handlers given to the engine. Each is one call of the engine into the core; the
  result \<open>Some t\<close> is an exception that escapes the handler into the engine.
  \<^verbatim>\<open>this.stop().catch(() => {})\<close> discards whatever the stop call raises.
\<close>

definition handler_onPartial ::
  "controller \<Rightarrow> string \<Rightarrow> string \<Rightarrow> nat \<Rightarrow> voice_state \<Rightarrow> voice_state" where
  "handler_onPartial ctl txt newId now s =
     (if caption_enabled (ctl_options ctl) then addInterimTranscript user txt newId now s else s)"

definition continuous_onFinal ::
  "controller \<Rightarrow> string \<Rightarrow> string \<Rightarrow> nat \<Rightarrow> voice_state \<Rightarrow> thrown option \<times> voice_state" where
  "continuous_onFinal ctl txt newId now s =
     check_triggers (rs_abortController (session ctl)) txt (triggers ctl)
       (addFinalTranscript user txt newId now s)"

definition once_onFinal ::
  "controller \<Rightarrow> string \<Rightarrow> real option \<Rightarrow> string \<Rightarrow> nat \<Rightarrow> outcome \<Rightarrow> voice_state \<Rightarrow>
   thrown option \<times> controller \<times> voice_state" where
  "once_onFinal ctl txt confidence newId now stopped s =
     (case check_triggers (rs_abortController (session ctl)) txt (triggers ctl)
             (addFinalTranscript user txt newId now s) of
        (Some t, s1) \<Rightarrow> (Some t, ctl, s1)
      | (None, s1) \<Rightarrow>
          (None,
           ctl\<lparr>promise := resolveResult
                  \<lparr>rr_text = txt, rr_at = now, rr_confidence = confidence\<rparr> (promise ctl)\<rparr>,
           snd (controller_stop stopped s1)))"

definition once_onError ::
  "controller \<Rightarrow> VoiceError \<Rightarrow> outcome \<Rightarrow> voice_state \<Rightarrow> controller \<times> voice_state" where
  "once_onError ctl error stopped s =
     (if code error \<noteq> ABORTED \<and> code error \<noteq> NO_SPEECH
      then (ctl\<lparr>promise := rejectResult error (promise ctl)\<rparr>,
            snd (controller_stop stopped (handleError error (ro_onError (ctl_options ctl)) s)))
      else (ctl, snd (controller_stop stopped s)))"

definition continuous_onError :: "controller \<Rightarrow> VoiceError \<Rightarrow> voice_state \<Rightarrow> voice_state" where
  "continuous_onError ctl error s =
     (if code error \<noteq> ABORTED \<and> code error \<noteq> NO_SPEECH
      then (let s1 = handleError error (ro_onError (ctl_options ctl)) s
            in if shouldLogError error
               then logError error ''UnifiedRecognitionController.continuous'' s1 else s1)
      else s)"

text \<open>
  The \<^verbatim>\<open>.catch\<close> on the promise of \<^verbatim>\<open>stt.start\<close>, for the two modes. An exception of a
  listener inside it is an unhandled rejection; the state it leaves is the result.
\<close>

definition clear_if_active :: "controller \<Rightarrow> voice_state \<Rightarrow> voice_state" where
  "clear_if_active ctl s =
     (case activeRecognitionSession s of
        None \<Rightarrow> s
      | Some a \<Rightarrow>
          if rs_abortController a = rs_abortController (session ctl)
          then snd (setActiveRecognitionSession None s) else s)"

definition once_start_rejected :: "controller \<Rightarrow> thrown \<Rightarrow> voice_state \<Rightarrow> controller \<times> voice_state" where
  "once_start_rejected ctl error s =
     (let voiceError = toVoiceError error STT_FAILED
      in if code voiceError \<noteq> ABORTED
         then (ctl\<lparr>promise := rejectResult voiceError (promise ctl)\<rparr>,
               clear_if_active ctl (handleError voiceError (ro_onError (ctl_options ctl)) s))
         else (ctl, clear_if_active ctl s))"

definition continuous_start_rejected :: "controller \<Rightarrow> thrown \<Rightarrow> voice_state \<Rightarrow> voice_state" where
  "continuous_start_rejected ctl error s =
     (let voiceError = toVoiceError error STT_FAILED
      in clear_if_active ctl
           (if code voiceError \<noteq> ABORTED
            then (let s1 = handleError voiceError (ro_onError (ctl_options ctl)) s
                  in if shouldLogError voiceError
                     then logError voiceError
                            ''UnifiedRecognitionController.continuous.catch'' s1
                     else s1)
            else s))"

section \<open>Conversation orchestrator\<close>

text \<open>
  \<^verbatim>\<open>activeConversationLoop?.isRunning\<close>, the test the loop makes after every await.
\<close>

definition running :: "voice_state \<Rightarrow> bool" where
  "running s = (case activeConversationLoop s of None \<Rightarrow> False | Some l \<Rightarrow> isRunning l)"

definition stopConversation :: "outcome \<Rightarrow> outcome \<Rightarrow> voice_state \<Rightarrow> voice_state" where
  "stopConversation sttStopped ttsStopped s =
     (let s1 = (case activeConversationLoop s of
                  Some l \<Rightarrow>
                    notifyConversation
                      ((abort (cl_abortController l) s)\<lparr>activeConversationLoop := None\<rparr>)
                | None \<Rightarrow> s)
      in snd (stopSynthesis ttsStopped (snd (stopRecognition sttStopped s1))))"

record ConversationOptions =
  co_method :: "recognize_method option"
  co_caption :: "bool option"

text \<open>
  What the closure returned by \<^verbatim>\<open>startConversation\<close> captures: the method, the caption
  flag and the loop's abort controller.
\<close>

record ConversationChain =
  ch_method :: recognize_method
  ch_caption :: bool
  ch_abortController :: nat

definition startConversation ::
  "ConversationOptions \<Rightarrow> outcome \<Rightarrow> outcome \<Rightarrow> voice_state \<Rightarrow> ConversationChain \<times> voice_state" where
  "startConversation options sttStopped ttsStopped s =
     (let s1 = (if activeConversationLoop s \<noteq> None
                then stopConversation sttStopped ttsStopped s else s)
      in case newAbortController s1 of (abortController, s2) \<Rightarrow>
           (\<lparr>ch_method = (case co_method options of Some m \<Rightarrow> m | None \<Rightarrow> continuous_method),
             ch_caption = (case co_caption options of Some b \<Rightarrow> b | None \<Rightarrow> True),
             ch_abortController = abortController\<rparr>,
            notifyConversation
              (s2\<lparr>activeConversationLoop :=
                    Some \<lparr>isRunning = True, cl_abortController = abortController\<rparr>\<rparr>)))"

text \<open>
  The pause of \<^verbatim>\<open>onRecognition\<close>:
  \<^verbatim>\<open>Math.max(loopOptions?.pauseMs ?? DEFAULT_PAUSE_MS, MIN_PAUSE_MS)\<close>. The option is
  \<open>None\<close> when \<^verbatim>\<open>loopOptions\<close> or its \<^verbatim>\<open>pauseMs\<close> is absent.
\<close>

definition MIN_PAUSE_MS :: number where
  "MIN_PAUSE_MS = Finite 500"

definition DEFAULT_PAUSE_MS :: number where
  "DEFAULT_PAUSE_MS = Finite 1000"

definition effective_pauseMs :: "number option \<Rightarrow> number" where
  "effective_pauseMs requested =
     Math_max (case requested of Some p \<Rightarrow> p | None \<Rightarrow> DEFAULT_PAUSE_MS) MIN_PAUSE_MS"

text \<open>
  \<^verbatim>\<open>recognizeOnce\<close>: the engine's calls into the three handlers, and the rejection of
  its \<^verbatim>\<open>start\<close> promise, arrive as a list of signals, each with the clock and id values
  the handler reads. The promise of \<^verbatim>\<open>recognizeOnce\<close> settles at the first final result,
  the first error that is neither ABORTED nor NO_SPEECH, or a rejected start that is not
  ABORTED; \<open>None\<close> says the signals end before it settles.
\<close>

datatype stt_signal =
    OnPartial string string nat
  | OnFinal string "real option" string nat
  | OnError VoiceError
  | StartRejected thrown

fun recognizeOnce_handlers ::
  "bool \<Rightarrow> stt_signal list \<Rightarrow> voice_state \<Rightarrow> (thrown + RecognitionResult) option \<times> voice_state" where
  "recognizeOnce_handlers cap [] s = (None, s)"
| "recognizeOnce_handlers cap (OnPartial txt newId now # sigs) s =
     recognizeOnce_handlers cap sigs
       (if cap then addInterimTranscript user txt newId now s else s)"
| "recognizeOnce_handlers cap (OnFinal txt confidence newId now # sigs) s =
     (Some (Inr \<lparr>rr_text = txt, rr_at = now, rr_confidence = confidence\<rparr>),
      addFinalTranscript user txt newId now s)"
| "recognizeOnce_handlers cap (OnError error # sigs) s =
     (if code error \<noteq> ABORTED \<and> code error \<noteq> NO_SPEECH
      then (Some (Inl (ThrownVoiceError error)), s)
      else recognizeOnce_handlers cap sigs s)"
| "recognizeOnce_handlers cap (StartRejected error # sigs) s =
     (let voiceError = toVoiceError error STT_FAILED
      in if code voiceError \<noteq> ABORTED
         then (Some (Inl (ThrownVoiceError voiceError)), s)
         else recognizeOnce_handlers cap sigs s)"

definition recognizeOnce ::
  "bool \<Rightarrow> nat option \<Rightarrow> stt_signal list \<Rightarrow> voice_state \<Rightarrow>
   (thrown + RecognitionResult) option \<times> voice_state" where
  "recognizeOnce cap optSignal sigs s =
     (if \<not> stt s
      then (Some (Inl (ThrownVoiceError
              (createVoiceError STT_NOT_AVAILABLE ''Speech recognition not available'' no_options))), s)
      else case newAbortController s of (abortController, s1) \<Rightarrow>
             recognizeOnce_handlers cap sigs
               (emit (SttStart (case optSignal of Some g \<Rightarrow> g | None \<Rightarrow> abortController) cap) s1))"

text \<open>
  While the loop awaits, the application may call into the core. The calls the model
  lets it make there are \<^verbatim>\<open>stopConversation\<close>, \<^verbatim>\<open>clearTranscript\<close> and \<^verbatim>\<open>clearError\<close>.
\<close>

datatype app_action =
    AppStopConversation outcome outcome
  | AppClearTranscript
  | AppClearError

fun run_action :: "app_action \<Rightarrow> voice_state \<Rightarrow> voice_state" where
  "run_action (AppStopConversation sttStopped ttsStopped) s = stopConversation sttStopped ttsStopped s"
| "run_action AppClearTranscript s = clearTranscript s"
| "run_action AppClearError s = clearError s"

fun run_actions :: "app_action list \<Rightarrow> voice_state \<Rightarrow> voice_state" where
  "run_actions [] s = s"
| "run_actions (a # as) s = run_actions as (run_action a s)"

text \<open>
  One iteration of the \<^verbatim>\<open>do ... while\<close> loop. A turn holds what the environment does
  during it: the recognition signals, the engine's answers to the synthesis calls, the
  clock and id values, and the application's calls at each await.
\<close>

record turn =
  t_signals :: "stt_signal list"
  t_while_listening :: "app_action list"
  t_while_responding :: "app_action list"
  t_ttsStopped :: outcome
  t_ttsStarted :: outcome
  t_now :: nat
  t_newId :: string
  t_entryAt :: nat
  t_while_speaking :: "app_action list"
  t_while_pausing :: "app_action list"

text \<open>
  How an iteration ends: \<open>Break\<close> and \<open>Next\<close> (the end of the body or \<^verbatim>\<open>continue\<close>,
  both of which go to the loop condition), \<open>Waiting\<close> when the turn ends while the loop
  awaits, and \<open>Uncaught\<close> when the catch clause itself throws.
\<close>

datatype loop_step = Break | Next | Waiting | Uncaught

text \<open>
  The catch clause of the loop. \<^verbatim>\<open>error as VoiceError\<close> is a cast. On \<^verbatim>\<open>null\<close> and
  \<^verbatim>\<open>undefined\<close> the first test, \<^verbatim>\<open>voiceErr.code === 'ABORTED'\<close>, throws a TypeError out
  of the clause. On any other value that is no VoiceError the code and the flags read as
  undefined, so the value is neither ABORTED nor NO_SPEECH nor a system error, it is not
  recoverable, and it is logged as a plain error.
\<close>

definition loop_catch :: "thrown \<Rightarrow> voice_state \<Rightarrow> loop_step \<times> voice_state" where
  "loop_catch error s =
     (case error of
        ThrownVoiceError voiceErr \<Rightarrow>
          if code voiceErr = ABORTED \<or> \<not> running s then (Break, s)
          else if code voiceErr = NO_SPEECH then (Next, s)
          else if isSystemError voiceErr
          then (Break, if shouldLogError voiceErr
                       then logError voiceErr ''Conversation loop'' s else s)
          else if recoverable voiceErr \<noteq> Some True
          then (Break, if shouldLogError voiceErr
                       then logError voiceErr ''Conversation loop'' s else s)
          else (Next, emit (Sleep (Finite 1000))
                        (if shouldLogError voiceErr
                         then logError voiceErr ''Conversation loop'' s else s))
      | ThrownNull \<Rightarrow> (Uncaught, s)
      | ThrownUndefined \<Rightarrow> (Uncaught, s)
      | _ \<Rightarrow>
          if \<not> running s then (Break, s)
          else (Break, logError_other error ''Conversation loop'' s))"

definition loop_body ::
  "bool \<Rightarrow> nat \<Rightarrow> (RecognitionResult \<Rightarrow> thrown + string) \<Rightarrow> number \<Rightarrow> turn \<Rightarrow> voice_state \<Rightarrow>
   loop_step \<times> voice_state" where
  "loop_body cap signal callback pauseMs t s =
     (case recognizeOnce cap (Some signal) (t_signals t) s of
        (None, s1) \<Rightarrow> (Waiting, s1)
      | (Some (Inl e), s1) \<Rightarrow> loop_catch e (run_actions (t_while_listening t) s1)
      | (Some (Inr result), s1) \<Rightarrow>
          let s2 = run_actions (t_while_listening t) s1
          in if \<not> running s2 then (Break, s2)
             else (case callback result of
                     Inl e \<Rightarrow> loop_catch e (run_actions (t_while_responding t) s2)
                   | Inr response \<Rightarrow>
                       let s3 = run_actions (t_while_responding t) s2
                       in if \<not> running s3 then (Break, s3)
                          else (case startSynthesis response default_synthesize_options
                                       (t_ttsStopped t) (t_ttsStarted t)
                                       (t_now t) (t_newId t) (t_entryAt t) s3 of
                                  (Inl e, s4) \<Rightarrow>
                                    loop_catch e (run_actions (t_while_speaking t) s4)
                                | (Inr _, s4) \<Rightarrow>
                                    let s5 = run_actions (t_while_speaking t) s4
                                    in if running s5
                                       then (Next, run_actions (t_while_pausing t)
                                                     (emit (Sleep pauseMs) s5))
                                       else (Next, s5))))"

text \<open>
  The loop, over the turns the environment provides: \<open>Suspended\<close> is the loop still
  awaiting when the turns end, \<open>Finished\<close> is the loop left and the cleanup done,
  \<open>Failed\<close> is the loop's task rejected by an exception of the catch clause, which
  skips the cleanup.
\<close>

datatype loop_status = Suspended | Finished | Failed

definition loop_cleanup :: "voice_state \<Rightarrow> voice_state" where
  "loop_cleanup s = notifyConversation (s\<lparr>activeConversationLoop := None\<rparr>)"

fun conversation_loop ::
  "recognize_method \<Rightarrow> bool \<Rightarrow> nat \<Rightarrow> (RecognitionResult \<Rightarrow> thrown + string) \<Rightarrow> number \<Rightarrow>
   turn list \<Rightarrow> voice_state \<Rightarrow> loop_status \<times> voice_state" where
  "conversation_loop method cap signal callback pauseMs [] s = (Suspended, s)"
| "conversation_loop method cap signal callback pauseMs (t # ts) s =
     (case loop_body cap signal callback pauseMs t s of
        (Waiting, s1) \<Rightarrow> (Suspended, s1)
      | (Break, s1) \<Rightarrow> (Finished, loop_cleanup s1)
      | (Uncaught, s1) \<Rightarrow> (Failed, s1)
      | (Next, s1) \<Rightarrow>
          if method = continuous_method \<and> running s1
          then conversation_loop method cap signal callback pauseMs ts s1
          else (Finished, loop_cleanup s1))"

text \<open>\<^verbatim>\<open>chain.onRecognition(callback, loopOptions)\<close>.\<close>

definition onRecognition ::
  "ConversationChain \<Rightarrow> (RecognitionResult \<Rightarrow> thrown + string) \<Rightarrow> number option \<Rightarrow>
   turn list \<Rightarrow> voice_state \<Rightarrow> loop_status \<times> voice_state" where
  "onRecognition chain callback requestedPause turns s =
     conversation_loop (ch_method chain) (ch_caption chain) (ch_abortController chain)
       callback (effective_pauseMs requestedPause) turns s"

section \<open>Notions used in the statements\<close>

subsection \<open>Listeners\<close>

text \<open>
  The console lines that the catch clauses of a \<^verbatim>\<open>notify*\<close> loop write for a list of
  listeners; the listeners that an unguarded loop reaches, up to and including the
  first one that throws; and the exception that ends such a loop.
\<close>

definition listener_error_lines :: "domain \<Rightarrow> listener list \<Rightarrow> console_line list" where
  "listener_error_lines d ls =
     concat (map (\<lambda>l. case lthrows l of None \<Rightarrow> [] | Some t \<Rightarrow> [ListenerErrorLine d t]) ls)"

fun called_until_throw :: "listener list \<Rightarrow> listener list" where
  "called_until_throw [] = []"
| "called_until_throw (l # ls) =
     l # (case lthrows l of None \<Rightarrow> called_until_throw ls | Some t \<Rightarrow> [])"

fun first_throw :: "listener list \<Rightarrow> thrown option" where
  "first_throw [] = None"
| "first_throw (l # ls) = (case lthrows l of None \<Rightarrow> first_throw ls | Some t \<Rightarrow> Some t)"

subsection \<open>The logging sink\<close>

text \<open>
  The lines \<^verbatim>\<open>logError\<close> writes for an error; the part of the console that \<^verbatim>\<open>logError\<close>
  wrote, which is the logging sink; and what the catch clause of a \<^verbatim>\<open>stop\<close> function
  adds to it for the way the engine's stop call settled.
\<close>

definition log_lines :: "VoiceError \<Rightarrow> string \<Rightarrow> console_line list" where
  "log_lines e ctx =
     LogLine (log_prefix ctx) (code e) (message e) #
     (case cause e of Some c \<Rightarrow> [CauseLine c] | None \<Rightarrow> []) @
     (case err_context e of Some k \<Rightarrow> [ContextLine k] | None \<Rightarrow> [])"

fun is_log_line :: "console_line \<Rightarrow> bool" where
  "is_log_line (LogLine p c m) = True"
| "is_log_line (CauseLine c) = True"
| "is_log_line (ContextLine k) = True"
| "is_log_line (ErrorObjectLine p t) = True"
| "is_log_line (ListenerErrorLine d t) = False"
| "is_log_line (CallbackErrorLine l t) = False"

definition logged :: "voice_state \<Rightarrow> console_line list" where
  "logged s = filter is_log_line (console s)"

definition stop_log :: "outcome \<Rightarrow> VoiceErrorCode \<Rightarrow> string \<Rightarrow> voice_state \<Rightarrow> console_line list" where
  "stop_log stopped defaultCode ctx s =
     (case stopped of
        Resolved \<Rightarrow> []
      | Rejected t \<Rightarrow>
          if errorLoggingEnabled s \<and> shouldLogError (toVoiceError t defaultCode)
          then log_lines (toVoiceError t defaultCode) ctx else [])"

subsection \<open>The error pipeline as the core calls it\<close>

text \<open>
  The core passes \<^verbatim>\<open>handleError\<close> as the handler of \<^verbatim>\<open>processVoiceError\<close>;
  \<open>pipeline_error\<close> is the VoiceError the pipeline works on, after the conversion of
  what was thrown.
\<close>

definition pipeline_options :: "process_options \<Rightarrow> process_options" where
  "pipeline_options options = options\<lparr>po_handleError := Some handleError\<rparr>"

definition pipeline_error :: "thrown \<Rightarrow> process_options \<Rightarrow> VoiceError" where
  "pipeline_error error options =
     toVoiceError error (case po_defaultCode options of Some c \<Rightarrow> c | None \<Rightarrow> TTS_FAILED)"

subsection \<open>Reachable states of the transcript store\<close>

text \<open>
  Only five functions of the module write the \<^verbatim>\<open>transcript\<close> variable or its snapshot
  cache. A state is reachable for the transcript store when it comes from the initial
  state by calls of these five, with any other code in between that leaves the two
  variables as they are (rule \<open>other\<close>). \<open>same_transcript\<close> is that relation; every
  other function of the model stays within it or goes through the five writers.
  A finite sequence of calls of the store can also be run (\<open>run_transcript_calls\<close>).
\<close>

definition interim_entries :: "role \<Rightarrow> TranscriptEntry list \<Rightarrow> TranscriptEntry list" where
  "interim_entries r ts = filter (\<lambda>t. entry_role t = r \<and> \<not> final t) ts"

inductive transcript_reachable :: "voice_state \<Rightarrow> bool" where
  initial: "transcript_reachable initial_state"
| addInterim: "transcript_reachable s \<Longrightarrow> transcript_reachable (addInterimTranscript r txt newId now s)"
| addFinal: "transcript_reachable s \<Longrightarrow> transcript_reachable (addFinalTranscript r txt newId now s)"
| clear: "transcript_reachable s \<Longrightarrow> transcript_reachable (clearTranscript s)"
| getSnapshot: "transcript_reachable s \<Longrightarrow> transcript_reachable (snd (getTranscriptSnapshot s))"
| notify: "transcript_reachable s \<Longrightarrow> transcript_reachable (notifyTranscript s)"
| other: "transcript_reachable s \<Longrightarrow> transcript s' = transcript s \<Longrightarrow>
          cachedTranscriptSnapshot s' = cachedTranscriptSnapshot s \<Longrightarrow> transcript_reachable s'"

definition same_transcript :: "voice_state \<Rightarrow> voice_state \<Rightarrow> bool" where
  "same_transcript s s' =
     (transcript s' = transcript s \<and> cachedTranscriptSnapshot s' = cachedTranscriptSnapshot s)"

datatype transcript_call =
    CallAddInterim role string string nat
  | CallAddFinal role string string nat
  | CallClear
  | CallGetSnapshot

fun run_transcript_call :: "transcript_call \<Rightarrow> voice_state \<Rightarrow> voice_state" where
  "run_transcript_call (CallAddInterim r txt newId now) s = addInterimTranscript r txt newId now s"
| "run_transcript_call (CallAddFinal r txt newId now) s = addFinalTranscript r txt newId now s"
| "run_transcript_call CallClear s = clearTranscript s"
| "run_transcript_call CallGetSnapshot s = snd (getTranscriptSnapshot s)"

fun run_transcript_calls :: "transcript_call list \<Rightarrow> voice_state \<Rightarrow> voice_state" where
  "run_transcript_calls [] s = s"
| "run_transcript_calls (c # cs) s = run_transcript_calls cs (run_transcript_call c s)"

text \<open>
  The invariant of the transcript store: at most one interim entry for each of the two
  roles, and a cached snapshot, when present, lists final entries only.
\<close>

definition transcript_ok :: "voice_state \<Rightarrow> bool" where
  "transcript_ok s =
     (length (interim_entries user (transcript s)) \<le> 1
      \<and> length (interim_entries assistant (transcript s)) \<le> 1
      \<and> (case cachedTranscriptSnapshot s of
            None \<Rightarrow> True
          | Some c \<Rightarrow> list_all final (entries c)))"

subsection \<open>Phrase triggers\<close>

text \<open>
  A sequence of \<^verbatim>\<open>when(phrase).then(callback)\<close> calls on a controller, and the calls of
  callbacks that a final result makes when every matching trigger of a map fires.
\<close>

definition register :: "(string \<times> trigger_callback) list \<Rightarrow> controller \<Rightarrow> controller" where
  "register regs ctl = fold (\<lambda>(phrase, callback). when_then phrase callback) regs ctl"

definition trigger_events ::
  "nat \<Rightarrow> string \<Rightarrow> (string \<times> trigger_callback) list \<Rightarrow> event list" where
  "trigger_events this txt trigs =
     map (\<lambda>(phrase, callback). Triggered (cb_id callback) this)
       (filter (\<lambda>(phrase, callback). matchPhrase txt phrase) trigs)"

subsection \<open>Concrete states and values of the examples\<close>

text \<open>
  Two thrown values; the module with both engines bound; the module while a synthesis
  session plays, while it is paused, and while a recognition and a synthesis session are
  both active; a module with two synthesis listeners of which the first throws; a
  module on which a throwing listener is subscribed while a session of its category is
  active; and recognition started twice in a row.
\<close>

definition boom :: thrown where
  "boom = ThrownError \<lparr>err_name = ''Error'', err_message = ''boom''\<rparr>"

definition abort_error :: thrown where
  "abort_error = ThrownError \<lparr>err_name = ''AbortError'', err_message = ''Speech was aborted''\<rparr>"

definition no_speech_error :: VoiceError where
  "no_speech_error = createVoiceError NO_SPEECH ''No speech detected'' no_options"

definition synthesis_process_options :: process_options where
  "synthesis_process_options =
     \<lparr>po_defaultCode = Some TTS_FAILED, po_onError = None,
      po_handleError = Some handleError, po_shouldThrow = Some True\<rparr>"

definition bound_state :: voice_state where
  "bound_state = setEngines True True initial_state"

definition speaking_state :: voice_state where
  "speaking_state =
     snd (startSynthesis_begin ''hello'' default_synthesize_options Resolved 1 ''1-a'' 1 bound_state)"

definition paused_state :: voice_state where
  "paused_state = snd (pauseSynthesis Resolved 5 speaking_state)"

definition busy_state :: voice_state where
  "busy_state =
     snd (startSynthesis_begin ''hello'' default_synthesize_options Resolved 1 ''1-a'' 1
            (snd (startRecognition default_recognize_options Resolved 1 bound_state)))"

definition two_listeners_state :: voice_state where
  "two_listeners_state =
     subscribeToSynthesis \<lparr>lid = 2, lthrows = None\<rparr>
       (subscribeToSynthesis \<lparr>lid = 1, lthrows = Some boom\<rparr> bound_state)"

definition heckled_synthesis :: voice_state where
  "heckled_synthesis = subscribeToSynthesis \<lparr>lid = 1, lthrows = Some boom\<rparr> speaking_state"

definition heckled_recognition :: voice_state where
  "heckled_recognition =
     subscribeToRecognition \<lparr>lid = 1, lthrows = Some boom\<rparr>
       (snd (startRecognition default_recognize_options Resolved 1 bound_state))"

definition restarted_recognition :: voice_state where
  "restarted_recognition =
     snd (startRecognition default_recognize_options Resolved 2
            (snd (startRecognition default_recognize_options Resolved 1 bound_state)))"

text \<open>
  A sequence of calls of the transcript store; three phrase triggers, and two of which
  the first has a throwing callback; a controller that listens continuously and one
  that listens for one result, each with the state its start leaves; one turn
  of a conversation in which the user says \<^verbatim>\<open>ping\<close> and the callback answers with an
  echo; and a turn in which the engine reports nothing.
\<close>

definition sample_calls :: "transcript_call list" where
  "sample_calls =
     [CallAddInterim user ''hel'' ''1-a'' 1,
      CallAddInterim assistant ''thinking'' ''2-b'' 2,
      CallAddInterim user ''hello'' ''3-c'' 3,
      CallGetSnapshot,
      CallAddFinal assistant ''hi there'' ''4-d'' 4,
      CallGetSnapshot]"

definition yes_triggers :: "(string \<times> trigger_callback) list" where
  "yes_triggers =
     [(''yes'', \<lparr>cb_id = 1, cb_throws = None\<rparr>),
      (''yes please'', \<lparr>cb_id = 2, cb_throws = None\<rparr>),
      (''no thanks'', \<lparr>cb_id = 3, cb_throws = None\<rparr>)]"

definition throwing_triggers :: "(string \<times> trigger_callback) list" where
  "throwing_triggers =
     [(''yes'', \<lparr>cb_id = 1, cb_throws = Some boom\<rparr>),
      (''yes please'', \<lparr>cb_id = 2, cb_throws = None\<rparr>)]"

definition listening_controller :: controller where
  "listening_controller =
     \<lparr>triggers = [],
      session = \<lparr>rs_type = continuous, rs_abortController = 0, rs_startedAt = 1\<rparr>,
      promise = Pending, ctl_method = continuous_method,
      ctl_options = default_recognize_options\<rparr>"

definition listening_state :: voice_state where
  "listening_state = snd (startRecognition default_recognize_options Resolved 1 bound_state)"

definition once_options :: RecognizeOptions where
  "once_options = default_recognize_options\<lparr>ro_method := Some once\<rparr>"

definition once_controller :: controller where
  "once_controller =
     \<lparr>triggers = [],
      session = \<lparr>rs_type = one_shot, rs_abortController = 0, rs_startedAt = 1\<rparr>,
      promise = Pending, ctl_method = once, ctl_options = once_options\<rparr>"

definition once_state :: voice_state where
  "once_state = snd (startRecognition once_options Resolved 1 bound_state)"

definition echo :: "RecognitionResult \<Rightarrow> thrown + string" where
  "echo r = Inr (''echo: '' @ rr_text r)"

definition ping_turn :: turn where
  "ping_turn =
     \<lparr>t_signals = [OnPartial ''pi'' ''1-a'' 1, OnFinal ''ping'' (Some 0.9) ''2-b'' 2],
      t_while_listening = [], t_while_responding = [],
      t_ttsStopped = Resolved, t_ttsStarted = Resolved,
      t_now = 3, t_newId = ''3-c'', t_entryAt = 3,
      t_while_speaking = [], t_while_pausing = []\<rparr>"

definition silent_turn :: turn where
  "silent_turn = ping_turn\<lparr>t_signals := []\<rparr>"

definition conversation_started :: "ConversationChain \<times> voice_state" where
  "conversation_started =
     startConversation \<lparr>co_method = None, co_caption = None\<rparr> Resolved Resolved bound_state"

definition ping_result :: RecognitionResult where
  "ping_result = \<lparr>rr_text = ''ping'', rr_at = 2, rr_confidence = Some 0.9\<rparr>"

definition ping_heard :: voice_state where
  "ping_heard = snd (recognizeOnce True (Some 0) (t_signals ping_turn) (snd conversation_started))"

definition ping_spoken :: voice_state where
  "ping_spoken =
     snd (startSynthesis ''echo: ping'' default_synthesize_options Resolved Resolved 3 ''3-c'' 3
            ping_heard)"

section \<open>Supporting lemmas\<close>

subsection \<open>Transcript writers\<close>

lemma call_listeners_caught_eq:
  "call_listeners_caught d ls s =
     s\<lparr>events := events s @ map (\<lambda>l. Notified d (lid l)) ls,
       console := console s @ listener_error_lines d ls\<rparr>"
  by (induction ls arbitrary: s)
     (simp_all add: emit_def console_error_def listener_error_lines_def split: option.splits)

lemma notifyTranscript_transcript [simp]: "transcript (notifyTranscript s) = transcript s"
  by (simp add: notifyTranscript_def call_listeners_caught_eq)

lemma notifyTranscript_cache [simp]: "cachedTranscriptSnapshot (notifyTranscript s) = None"
  by (simp add: notifyTranscript_def call_listeners_caught_eq)

lemma findIndex_None: "findIndex P xs = None \<longleftrightarrow> (\<forall>x \<in> set xs. \<not> P x)"
  by (induction xs) auto

lemma findIndex_Some: "findIndex P xs = Some i \<Longrightarrow> i < length xs \<and> P (xs ! i)"
  by (induction xs arbitrary: i) (auto split: if_splits)

lemma filter_update_same:
  "i < length xs \<Longrightarrow> Q (xs ! i) = Q y \<Longrightarrow> length (filter Q (xs[i := y])) = length (filter Q xs)"
proof (induction xs arbitrary: i)
  case Nil
  then show ?case by simp
next
  case (Cons x xs)
  then show ?case by (cases i) auto
qed

lemma interim_entries_addInterim:
  assumes "length (interim_entries r' (transcript s)) \<le> 1"
  shows "length (interim_entries r' (transcript (addInterimTranscript r txt newId now s))) \<le> 1"
proof (cases "findIndex (\<lambda>t. entry_role t = r \<and> \<not> final t) (transcript s)")
  case None
  then have none: "interim_entries r (transcript s) = []"
    by (auto simp: findIndex_None interim_entries_def filter_empty_conv)
  show ?thesis
  proof (cases "r' = r")
    case True
    with None none show ?thesis
      by (simp add: addInterimTranscript_def interim_entries_def)
  next
    case False
    with None assms show ?thesis
      by (simp add: addInterimTranscript_def interim_entries_def)
  qed
next
  case (Some i)
  from findIndex_Some [OF Some]
  have i: "i < length (transcript s)"
    and p: "entry_role (transcript s ! i) = r" "\<not> final (transcript s ! i)"
    by auto
  have "length (interim_entries r' ((transcript s)[i := \<lparr>entry_id = entry_id (transcript s ! i),
          entry_role = r, entry_text = txt, entry_at = now, final = False\<rparr>]))
        = length (interim_entries r' (transcript s))"
    unfolding interim_entries_def using i p by (intro filter_update_same) auto
  with Some assms show ?thesis
    by (simp add: addInterimTranscript_def)
qed

lemma length_filter_filter_le:
  "length (filter P (filter Q xs)) \<le> length (filter P xs)"
  by (induction xs) auto

lemma interim_entries_addFinal:
  assumes "length (interim_entries r' (transcript s)) \<le> 1"
  shows "length (interim_entries r' (transcript (addFinalTranscript r txt newId now s))) \<le> 1"
proof -
  let ?kept = "filter (\<lambda>t. \<not> (entry_role t = r \<and> \<not> final t)) (transcript s)"
  have "length (interim_entries r' ?kept) \<le> length (interim_entries r' (transcript s))"
    unfolding interim_entries_def by (rule length_filter_filter_le)
  with assms show ?thesis
    by (simp add: addFinalTranscript_def interim_entries_def)
qed

lemma interim_entries_addFinal_same:
  "interim_entries r (transcript (addFinalTranscript r txt newId now s)) = []"
  by (simp add: addFinalTranscript_def interim_entries_def filter_empty_conv)

lemma addInterimTranscript_cache [simp]:
  "cachedTranscriptSnapshot (addInterimTranscript r txt newId now s) = None"
  by (simp add: addInterimTranscript_def)

lemma addFinalTranscript_cache [simp]:
  "cachedTranscriptSnapshot (addFinalTranscript r txt newId now s) = None"
  by (simp add: addFinalTranscript_def)

lemma transcript_ok_call: "transcript_ok s \<Longrightarrow> transcript_ok (run_transcript_call c s)"
proof (cases c)
  case (CallAddInterim r x i n)
  assume "transcript_ok s"
  then show ?thesis
    using interim_entries_addInterim [of user s r x i n]
      interim_entries_addInterim [of assistant s r x i n]
    by (simp add: transcript_ok_def CallAddInterim)
next
  case (CallAddFinal r x i n)
  assume "transcript_ok s"
  then show ?thesis
    using interim_entries_addFinal [of user s r x i n]
      interim_entries_addFinal [of assistant s r x i n]
    by (simp add: transcript_ok_def CallAddFinal)
next
  case CallClear
  then show ?thesis
    by (simp add: transcript_ok_def clearTranscript_def interim_entries_def)
next
  case CallGetSnapshot
  assume "transcript_ok s"
  then show ?thesis
    by (auto simp: transcript_ok_def CallGetSnapshot getTranscriptSnapshot_def Let_def
          list_all_iff split: option.splits)
qed

lemma transcript_ok_calls: "transcript_ok s \<Longrightarrow> transcript_ok (run_transcript_calls cs s)"
  by (induction cs arbitrary: s) (simp_all add: transcript_ok_call)

lemma transcript_ok_initial: "transcript_ok initial_state"
  by (simp add: transcript_ok_def initial_state_def interim_entries_def)

lemma entries_final:
  "transcript_ok s \<Longrightarrow> e \<in> set (entries (fst (getTranscriptSnapshot s))) \<Longrightarrow> final e"
  by (auto simp: transcript_ok_def getTranscriptSnapshot_def Let_def list_all_iff
        split: option.splits)


subsection \<open>Listener loops, logging and the error pipeline\<close>

lemma call_listeners_eq:
  "call_listeners d ls s =
     (first_throw ls,
      s\<lparr>events := events s @ map (\<lambda>l. Notified d (lid l)) (called_until_throw ls)\<rparr>)"
  by (induction ls arbitrary: s) (simp_all add: emit_def split: option.splits)

lemma first_throw_None: "first_throw ls = None \<longleftrightarrow> (\<forall>l \<in> set ls. lthrows l = None)"
  by (induction ls) (auto split: option.splits)

lemma called_until_throw_all: "first_throw ls = None \<Longrightarrow> called_until_throw ls = ls"
  by (induction ls) (auto split: option.splits)

lemma logError_eq:
  "logError e ctx s =
     (if errorLoggingEnabled s \<and> shouldLogError e
      then s\<lparr>console := console s @ log_lines e ctx\<rparr> else s)"
  by (simp add: logError_def log_lines_def console_error_def Let_def split: option.splits)

lemma logged_listener_error_lines [simp]: "filter is_log_line (listener_error_lines d ls) = []"
  by (induction ls) (simp_all add: listener_error_lines_def split: option.splits)

lemma logged_log_lines [simp]: "filter is_log_line (log_lines e ctx) = log_lines e ctx"
  by (simp add: log_lines_def split: option.splits)

lemma logged_notifyQonvo [simp]: "logged (notifyQonvo s) = logged s"
  by (simp add: logged_def notifyQonvo_def call_listeners_caught_eq)

lemma logged_setError [simp]: "logged (setError e s) = logged s"
  by (simp add: setError_def) (simp add: logged_def)

lemma logged_call_error_callback [simp]: "logged (call_error_callback l cb e s) = logged s"
  by (simp add: call_error_callback_def logged_def console_error_def split: option.splits)

lemma logged_handleError [simp]: "logged (handleError e cb s) = logged s"
  by (simp add: handleError_def Let_def)

lemma handleError_ABORTED:
  "code e = ABORTED \<Longrightarrow>
     handleError e cb s = call_error_callback ''[Qonvo] Error in global onError callback:''
        (globalOnError s) e (call_error_callback ''[Qonvo] Error in onError callback:'' cb e s)"
  by (simp add: handleError_def Let_def call_error_callback_def console_error_def
        split: option.splits)

lemma call_error_callback_frame [simp]:
  "lastError (call_error_callback l cb e s) = lastError s"
  "cachedQonvoSnapshot (call_error_callback l cb e s) = cachedQonvoSnapshot s"
  "isReady (call_error_callback l cb e s) = isReady s"
  by (simp_all add: call_error_callback_def console_error_def split: option.splits)

lemma getQonvoSnapshot_cong:
  "lastError s' = lastError s \<Longrightarrow> cachedQonvoSnapshot s' = cachedQonvoSnapshot s \<Longrightarrow>
   isReady s' = isReady s \<Longrightarrow> fst (getQonvoSnapshot s') = fst (getQonvoSnapshot s)"
  by (simp add: getQonvoSnapshot_def Let_def split: option.splits)

lemma processVoiceError_silent:
  assumes "code (pipeline_error error options) \<in> {ABORTED, NO_SPEECH}"
  shows "logged (snd (processVoiceError error ctx (pipeline_options options) s)) = logged s"
  using assms
  by (auto simp: processVoiceError_def pipeline_options_def pipeline_error_def Let_def
        shouldLogError_def SILENT_ERROR_CODES_def split: sum.splits)

lemma processVoiceError_ABORTED:
  assumes "code (pipeline_error error options) = ABORTED"
  shows "lastError (snd (processVoiceError error ctx (pipeline_options options) s)) = lastError s"
    and "fst (getQonvoSnapshot (snd (processVoiceError error ctx (pipeline_options options) s)))
           = fst (getQonvoSnapshot s)"
    and "fst (processVoiceError error ctx (pipeline_options options) s)
           = Inr (pipeline_error error options)"
  using assms
  by (auto simp: processVoiceError_def pipeline_options_def pipeline_error_def Let_def
        shouldLogError_def SILENT_ERROR_CODES_def handleError_ABORTED throwVoiceError_def
        intro!: getQonvoSnapshot_cong split: sum.splits)

lemma handleError_records:
  assumes "code e \<noteq> ABORTED"
  shows "lastError (handleError e cb s) = Some e"
    and "q_error (fst (getQonvoSnapshot (handleError e cb s))) = Some e"
  using assms
  by (simp_all add: handleError_def Let_def setError_def notifyQonvo_def
        call_listeners_caught_eq call_error_callback_def console_error_def
        getQonvoSnapshot_def split: option.splits)

lemma processVoiceError_records:
  assumes "code (pipeline_error error options) \<noteq> ABORTED"
  shows "lastError (snd (processVoiceError error ctx (pipeline_options options) s))
           = Some (pipeline_error error options)"
    and "q_error (fst (getQonvoSnapshot
           (snd (processVoiceError error ctx (pipeline_options options) s))))
           = Some (pipeline_error error options)"
proof -
  let ?e = "pipeline_error error options"
  let ?h = "handleError ?e (po_onError options) s"
  have after: "snd (processVoiceError error ctx (pipeline_options options) s) =
      (if shouldLogError ?e then logError ?e ctx ?h else ?h)"
    by (simp add: processVoiceError_def pipeline_options_def pipeline_error_def Let_def
          split: sum.splits option.splits)
  have frame: "lastError (logError ?e ctx ?h) = lastError ?h"
    "cachedQonvoSnapshot (logError ?e ctx ?h) = cachedQonvoSnapshot ?h"
    "isReady (logError ?e ctx ?h) = isReady ?h"
    by (simp_all add: logError_eq)
  show "lastError (snd (processVoiceError error ctx (pipeline_options options) s)) = Some ?e"
    unfolding after using handleError_records(1) [OF assms] by (simp add: frame)
  show "q_error (fst (getQonvoSnapshot
           (snd (processVoiceError error ctx (pipeline_options options) s)))) = Some ?e"
    unfolding after using handleError_records [OF assms, of "po_onError options" s]
    by (simp add: getQonvoSnapshot_def frame Let_def split: option.splits)
qed

subsection \<open>Stopping, pausing and resuming\<close>

lemma bound_state_eval:
  "bound_state = initial_state\<lparr>stt := True, tts := True\<rparr>"
  by (simp add: bound_state_def setEngines_def notifyAll_def
        notifyQonvo_def notifyTranscript_def notifyRecognition_def notifySynthesis_def
        initial_state_def)

lemma stopSynthesis_noop:
  "\<not> tts s \<or> activeSynthesisSession s = None \<Longrightarrow> stopSynthesis stopped s = (Inr (), s)"
  by (auto simp: stopSynthesis_def)

lemma stopRecognition_noop:
  "\<not> stt s \<or> activeRecognitionSession s = None \<Longrightarrow> stopRecognition stopped s = (Inr (), s)"
  by (auto simp: stopRecognition_def)

lemma stopSynthesis_result:
  "fst (stopSynthesis stopped s) =
     (if tts s \<and> activeSynthesisSession s \<noteq> None
      then (case first_throw (synthesisListeners s) of None \<Rightarrow> Inr () | Some t \<Rightarrow> Inl t)
      else Inr ())"
  by (auto simp: stopSynthesis_def setActiveSynthesisSession_def call_listeners_eq Let_def
        split: option.splits outcome.splits)

lemma stopRecognition_result:
  "fst (stopRecognition stopped s) =
     (if stt s \<and> activeRecognitionSession s \<noteq> None
      then (case first_throw (recognitionListeners s) of None \<Rightarrow> Inr () | Some t \<Rightarrow> Inl t)
      else Inr ())"
  by (auto simp: stopRecognition_def setActiveRecognitionSession_def call_listeners_eq Let_def
        split: option.splits outcome.splits)

lemma stopSynthesis_active:
  assumes "tts s" "activeSynthesisSession s = Some a"
    and "\<forall>l \<in> set (synthesisListeners s). lthrows l = None"
  shows "stopSynthesis stopped s =
     (Inr (),
      s\<lparr>activeSynthesisSession := None, cachedSynthesisSnapshot := None,
        events := events s @ map (\<lambda>l. Notified Synthesis (lid l)) (synthesisListeners s)
                    @ [Abort (ss_abortController a), TtsStop],
        console := console s @ stop_log stopped TTS_FAILED ''stopSynthesis'' s\<rparr>)"
proof -
  from assms(3) have ft: "first_throw (synthesisListeners s) = None"
    by (simp add: first_throw_None)
  show ?thesis
    using assms(1,2) ft
    by (cases stopped)
       (simp_all add: stopSynthesis_def setActiveSynthesisSession_def call_listeners_eq
          called_until_throw_all abort_def emit_def logError_eq stop_log_def Let_def)
qed

lemma stopRecognition_active:
  assumes "stt s" "activeRecognitionSession s = Some a"
    and "\<forall>l \<in> set (recognitionListeners s). lthrows l = None"
  shows "stopRecognition stopped s =
     (Inr (),
      s\<lparr>activeRecognitionSession := None, cachedRecognitionSnapshot := None,
        events := events s @ map (\<lambda>l. Notified Recognition (lid l)) (recognitionListeners s)
                    @ [Abort (rs_abortController a), SttStop],
        console := console s @ stop_log stopped STT_FAILED ''stopRecognition'' s\<rparr>)"
proof -
  from assms(3) have ft: "first_throw (recognitionListeners s) = None"
    by (simp add: first_throw_None)
  show ?thesis
    using assms(1,2) ft
    by (cases stopped)
       (simp_all add: stopRecognition_def setActiveRecognitionSession_def call_listeners_eq
          called_until_throw_all abort_def emit_def logError_eq stop_log_def Let_def)
qed

lemmas eval_defs =
  initial_state_def startRecognition_def stopRecognition_def
  new_UnifiedRecognitionController_def newAbortController_def
  setActiveRecognitionSession_def setActiveSynthesisSession_def setError_def
  notifyQonvo_def notifyTranscript_def notifySynthesis_def notifyRecognition_def
  notifyConversation_def emit_def abort_def aborted_def console_error_def
  default_recognize_options_def default_synthesize_options_def caption_enabled_def
  startSynthesis_begin_def startSynthesis_settle_def startSynthesis_finally_def
  startSynthesis_def stopSynthesis_def pauseSynthesis_def resumeSynthesis_def
  synthesis_catch_def addFinalTranscript_def addInterimTranscript_def
  processVoiceError_def handleError_def call_error_callback_def throwVoiceError_def
  createVoiceError_def no_options_def shouldLogError_def
  SILENT_ERROR_CODES_def logError_def log_prefix_def Let_def

lemma speaking_state_eval:
  "speaking_state = initial_state\<lparr>stt := True, tts := True,
      transcript := [\<lparr>entry_id = ''1-a'', entry_role = assistant, entry_text = ''hello'',
                      entry_at = 1, final = True\<rparr>],
      activeSynthesisSession := Some \<lparr>ss_text = ''hello'', ss_abortController = 0,
                      ss_startedAt = 1, pausedAt = None\<rparr>,
      nextController := 1, events := [TtsStart ''hello'' 0]\<rparr>"
  by (simp add: speaking_state_def bound_state_eval eval_defs)

lemma busy_state_eval:
  "busy_state = initial_state\<lparr>stt := True, tts := True,
      transcript := [\<lparr>entry_id = ''1-a'', entry_role = assistant, entry_text = ''hello'',
                      entry_at = 1, final = True\<rparr>],
      activeRecognitionSession := Some \<lparr>rs_type = continuous, rs_abortController = 0,
                      rs_startedAt = 1\<rparr>,
      activeSynthesisSession := Some \<lparr>ss_text = ''hello'', ss_abortController = 1,
                      ss_startedAt = 1, pausedAt = None\<rparr>,
      nextController := 2, events := [SttStart 0 False, TtsStart ''hello'' 1]\<rparr>"
  by (simp add: busy_state_def bound_state_eval eval_defs)

lemma synthesis_catch_frame [simp]:
  "activeSynthesisSession (snd (synthesis_catch ctx t s)) = activeSynthesisSession s"
  "nextController (snd (synthesis_catch ctx t s)) = nextController s"
  "cachedSynthesisSnapshot (snd (synthesis_catch ctx t s)) = cachedSynthesisSnapshot s"
  "events (snd (synthesis_catch ctx t s)) = events s"
  by (simp_all add: synthesis_catch_def logError_eq Let_def)

lemma pauseSynthesis_noop:
  "\<not> tts s \<or> activeSynthesisSession s = None \<Longrightarrow> pauseSynthesis paused now s = (Inr (), s)"
  by (auto simp: pauseSynthesis_def)

lemma resumeSynthesis_noop:
  "\<not> tts s \<or> (case activeSynthesisSession s of None \<Rightarrow> True | Some a \<Rightarrow> pausedAt a = None)
   \<Longrightarrow> resumeSynthesis resumed s = (Inr (), s)"
  by (auto simp: resumeSynthesis_def split: option.splits)

lemma pauseSynthesis_acts:
  assumes "tts s" "activeSynthesisSession s = Some a"
  shows "activeSynthesisSession (snd (pauseSynthesis Resolved now s)) = Some (a\<lparr>pausedAt := Some now\<rparr>)"
    and "cachedSynthesisSnapshot (snd (pauseSynthesis Resolved now s)) = None"
    and "events (snd (pauseSynthesis Resolved now s)) =
           events s @ TtsPause # map (\<lambda>l. Notified Synthesis (lid l))
                                   (called_until_throw (synthesisListeners s))"
    and "activeSynthesisSession (snd (pauseSynthesis (Rejected t) now s)) = Some a"
  using assms
  by (simp_all add: pauseSynthesis_def setActiveSynthesisSession_def call_listeners_eq emit_def
        Let_def split: option.splits)

lemma resumeSynthesis_acts:
  assumes "tts s" "activeSynthesisSession s = Some a" "pausedAt a = Some p" "p \<noteq> 0"
  shows "activeSynthesisSession (snd (resumeSynthesis Resolved s)) = Some (a\<lparr>pausedAt := None\<rparr>)"
    and "cachedSynthesisSnapshot (snd (resumeSynthesis Resolved s)) = None"
    and "events (snd (resumeSynthesis Resolved s)) =
           events s @ TtsResume # map (\<lambda>l. Notified Synthesis (lid l))
                                    (called_until_throw (synthesisListeners s))"
    and "activeSynthesisSession (snd (resumeSynthesis (Rejected t) s)) = Some a"
  using assms
  by (simp_all add: resumeSynthesis_def setActiveSynthesisSession_def call_listeners_eq emit_def
        Let_def split: option.splits)

lemma pause_resume_no_allocation:
  "nextController (snd (pauseSynthesis paused now s)) = nextController s"
  "nextController (snd (resumeSynthesis resumed s)) = nextController s"
  by (simp_all add: pauseSynthesis_def resumeSynthesis_def setActiveSynthesisSession_def
        call_listeners_eq emit_def Let_def split: option.splits outcome.splits)

subsection \<open>Starting synthesis\<close>

lemma stopSynthesis_transcript [simp]:
  "transcript (snd (stopSynthesis stopped s)) = transcript s"
  by (simp add: stopSynthesis_def setActiveSynthesisSession_def call_listeners_eq abort_def
        emit_def logError_eq Let_def split: option.splits outcome.splits)

lemma handleError_frame [simp]:
  "transcript (handleError e cb s) = transcript s"
  "activeSynthesisSession (handleError e cb s) = activeSynthesisSession s"
  "synthesisListeners (handleError e cb s) = synthesisListeners s"
  by (simp_all add: handleError_def setError_def notifyQonvo_def call_listeners_caught_eq
        call_error_callback_def console_error_def Let_def split: option.splits)

lemma processVoiceError_frame [simp]:
  "transcript (snd (processVoiceError e ctx
      \<lparr>po_defaultCode = d, po_onError = cb, po_handleError = Some handleError,
       po_shouldThrow = th\<rparr> s)) = transcript s"
  "activeSynthesisSession (snd (processVoiceError e ctx
      \<lparr>po_defaultCode = d, po_onError = cb, po_handleError = Some handleError,
       po_shouldThrow = th\<rparr> s)) = activeSynthesisSession s"
  by (simp_all add: processVoiceError_def logError_eq Let_def split: sum.splits option.splits)

lemma startSynthesis_finally_frame:
  "transcript (snd (startSynthesis_finally c (r, s))) = transcript s"
  "activeSynthesisSession s = Some a \<Longrightarrow> ss_abortController a = c \<Longrightarrow>
     activeSynthesisSession (snd (startSynthesis_finally c (r, s))) = None"
  by (simp_all add: startSynthesis_finally_def setActiveSynthesisSession_def call_listeners_eq
        split: option.splits)

lemma startSynthesis_begin_reached:
  assumes "startSynthesis_begin txt options stopped now newId entryAt s = (Inr c, s1)"
  shows "transcript s1 =
           filter (\<lambda>t. \<not> (entry_role t = assistant \<and> \<not> final t)) (transcript s) @
           [\<lparr>entry_id = newId, entry_role = assistant, entry_text = txt,
             entry_at = entryAt, final = True\<rparr>]"
    and "activeSynthesisSession s1 =
           Some \<lparr>ss_text = txt, ss_abortController = c, ss_startedAt = now, pausedAt = None\<rparr>"
    and "\<exists>evs. events s1 =
           events s @ evs @ [TtsStart txt (case so_signal options of Some g \<Rightarrow> g | None \<Rightarrow> c)]"
proof -
  from assms have t: "tts s"
    by (auto simp: startSynthesis_begin_def split: if_splits)
  obtain r0 s0 where stop:
    "(if activeSynthesisSession s \<noteq> None then stopSynthesis stopped s else (Inr (), s)) = (r0, s0)"
    by (cases "if activeSynthesisSession s \<noteq> None then stopSynthesis stopped s else (Inr (), s)")
  from assms t stop have r0: "r0 = Inr ()"
    by (cases r0) (auto simp: startSynthesis_begin_def)
  have tr0: "transcript s0 = transcript s"
    using stop by (auto split: if_splits) (metis snd_conv stopSynthesis_transcript)
  have ev0: "\<exists>evs. events s0 = events s @ evs"
    using stop
    by (auto simp: stopSynthesis_def setActiveSynthesisSession_def call_listeners_eq abort_def
          emit_def logError_eq Let_def split: if_splits option.splits outcome.splits)
  let ?sess = "\<lparr>ss_text = txt, ss_abortController = nextController s0,
                 ss_startedAt = now, pausedAt = None\<rparr>"
  from assms t stop r0
  have ft: "first_throw (synthesisListeners s0) = None" and c: "c = nextController s0"
    and s1: "s1 = emit (TtsStart txt (case so_signal options of Some g \<Rightarrow> g | None \<Rightarrow> c))
                   (addFinalTranscript assistant txt newId entryAt
                      (setError None
                         (snd (setActiveSynthesisSession (Some ?sess)
                                 (s0\<lparr>nextController := Suc (nextController s0)\<rparr>)))))"
    by (auto simp: startSynthesis_begin_def newAbortController_def setActiveSynthesisSession_def
          call_listeners_eq Let_def split: option.splits)
  show "transcript s1 =
           filter (\<lambda>t. \<not> (entry_role t = assistant \<and> \<not> final t)) (transcript s) @
           [\<lparr>entry_id = newId, entry_role = assistant, entry_text = txt,
             entry_at = entryAt, final = True\<rparr>]"
    using tr0
    by (simp add: s1 emit_def addFinalTranscript_def notifyTranscript_def call_listeners_caught_eq
          setError_def notifyQonvo_def setActiveSynthesisSession_def call_listeners_eq)
  show "activeSynthesisSession s1 =
           Some \<lparr>ss_text = txt, ss_abortController = c, ss_startedAt = now, pausedAt = None\<rparr>"
    by (simp add: s1 c emit_def addFinalTranscript_def notifyTranscript_def call_listeners_caught_eq
          setError_def notifyQonvo_def setActiveSynthesisSession_def call_listeners_eq)
  from ev0 obtain evs0 where "events s0 = events s @ evs0" by blast
  then show "\<exists>evs. events s1 =
           events s @ evs @ [TtsStart txt (case so_signal options of Some g \<Rightarrow> g | None \<Rightarrow> c)]"
    by (simp add: s1 emit_def addFinalTranscript_def notifyTranscript_def call_listeners_caught_eq
          setError_def notifyQonvo_def setActiveSynthesisSession_def call_listeners_eq)
qed

lemma two_listeners_state_eval:
  "two_listeners_state = initial_state\<lparr>stt := True, tts := True,
      synthesisListeners := [\<lparr>lid = 1, lthrows = Some boom\<rparr>, \<lparr>lid = 2, lthrows = None\<rparr>]\<rparr>"
  by (simp add: two_listeners_state_def subscribeToSynthesis_def bound_state_eval
        initial_state_def set_add_def boom_def)

subsection \<open>Phrase matching and triggers\<close>

lemma starts_with_iff: "starts_with xs ys \<longleftrightarrow> (\<exists>ss. xs = ys @ ss)"
  by (induction xs ys rule: starts_with.induct) auto

lemma string_includes_iff: "string_includes xs ys \<longleftrightarrow> (\<exists>ps ss. xs = ps @ ys @ ss)"
proof (induction xs)
  case Nil
  then show ?case by auto
next
  case (Cons x xs)
  show ?case
  proof
    assume "string_includes (x # xs) ys"
    then consider "starts_with (x # xs) ys" | "string_includes xs ys" by auto
    then show "\<exists>ps ss. x # xs = ps @ ys @ ss"
    proof cases
      case 1
      then obtain ss where "x # xs = ys @ ss" by (auto simp: starts_with_iff)
      then have "x # xs = [] @ ys @ ss" by simp
      then show ?thesis by blast
    next
      case 2
      with Cons.IH obtain ps ss where "xs = ps @ ys @ ss" by blast
      then have "x # xs = (x # ps) @ ys @ ss" by simp
      then show ?thesis by blast
    qed
  next
    assume "\<exists>ps ss. x # xs = ps @ ys @ ss"
    then obtain ps ss where eq: "x # xs = ps @ ys @ ss" by blast
    show "string_includes (x # xs) ys"
    proof (cases ps)
      case Nil
      with eq have "starts_with (x # xs) ys" by (auto simp: starts_with_iff)
      then show ?thesis by simp
    next
      case (Cons p ps')
      with eq have "xs = ps' @ ys @ ss" by simp
      with Cons.IH have "string_includes xs ys" by blast
      then show ?thesis by simp
    qed
  qed
qed

lemma check_triggers_no_throw:
  assumes "\<forall>(phrase, callback) \<in> set trigs. matchPhrase txt phrase \<longrightarrow> cb_throws callback = None"
  shows "check_triggers this txt trigs s =
           (None, s\<lparr>events := events s @ trigger_events this txt trigs\<rparr>)"
  using assms
proof (induction trigs arbitrary: s)
  case Nil
  then show ?case by (simp add: trigger_events_def)
next
  case (Cons pc trigs)
  obtain phrase callback where pc: "pc = (phrase, callback)" by (cases pc)
  from Cons.prems have rest:
    "\<forall>(phrase, callback) \<in> set trigs. matchPhrase txt phrase \<longrightarrow> cb_throws callback = None"
    by simp
  show ?case
  proof (cases "matchPhrase txt phrase")
    case True
    with Cons.prems pc have "cb_throws callback = None" by simp
    with True pc Cons.IH [OF rest] show ?thesis
      by (simp add: trigger_events_def emit_def)
  next
    case False
    with pc Cons.IH [OF rest] show ?thesis
      by (simp add: trigger_events_def)
  qed
qed

lemma map_set_fresh: "k \<notin> fst ` set m \<Longrightarrow> map_set k v m = m @ [(k, v)]"
  by (induction m) auto

lemma fold_when_then_distinct:
  "distinct (map fst (triggers ctl) @ map fst regs) \<Longrightarrow>
   triggers (fold (\<lambda>(phrase, callback). when_then phrase callback) regs ctl) = triggers ctl @ regs"
proof (induction regs arbitrary: ctl)
  case Nil
  then show ?case by simp
next
  case (Cons r regs)
  obtain k v where r: "r = (k, v)" by (cases r)
  from Cons.prems r have fresh: "k \<notin> fst ` set (triggers ctl)" by auto
  have step: "triggers (when_then k v ctl) = triggers ctl @ [(k, v)]"
    using fresh by (simp add: when_then_def map_set_fresh)
  have "distinct (map fst (triggers (when_then k v ctl)) @ map fst regs)"
    using Cons.prems r step by auto
  from Cons.IH [OF this] step r show ?case by simp
qed

lemma register_distinct:
  "distinct (map fst regs) \<Longrightarrow> triggers ctl = [] \<Longrightarrow> triggers (register regs ctl) = regs"
  using fold_when_then_distinct [of ctl regs] by (simp add: register_def)

lemma char_eq_nat: "c = d \<longleftrightarrow> (of_char c :: nat) = of_char d"
  by simp

lemma is_space_code: "is_space c \<longleftrightarrow> (of_char c :: nat) \<in> {9, 10, 11, 12, 13, 32, 160}"
  unfolding is_space_def
  by (simp only: list.set insert_iff empty_iff char_eq_nat [of c]) auto

lemma of_char_lower_char:
  "(of_char (lower_char c) :: nat) =
     (if (65 \<le> (of_char c :: nat) \<and> (of_char c :: nat) \<le> 90)
         \<or> (192 \<le> (of_char c :: nat) \<and> (of_char c :: nat) \<le> 222 \<and> (of_char c :: nat) \<noteq> 215)
      then of_char c + 32 else of_char c)"
  by (simp add: lower_char_def is_upper_def Let_def)

lemma is_space_lower_char [simp]: "is_space (lower_char c) = is_space c"
  unfolding is_space_code of_char_lower_char by auto

lemma lower_char_idem [simp]: "lower_char (lower_char c) = lower_char c"
  by (rule of_char_eqI [where 'a = nat]) (simp add: of_char_lower_char)

lemma dropWhile_is_space_lower:
  "dropWhile is_space (map lower_char s) = map lower_char (dropWhile is_space s)"
  by (induction s) simp_all

lemma trim_toLowerCase: "trim (toLowerCase s) = toLowerCase (trim s)"
proof -
  have "rev (map lower_char (dropWhile is_space s)) = map lower_char (rev (dropWhile is_space s))"
    by (simp add: rev_map)
  then show ?thesis
    by (simp add: trim_def toLowerCase_def dropWhile_is_space_lower rev_map)
qed

lemma normalize_case_insensitive:
  "toLowerCase a = toLowerCase b \<Longrightarrow> normalize a = normalize b"
  by (simp add: normalize_def trim_toLowerCase [symmetric])

lemma stopRecognition_events: "\<exists>rest. events (snd (stopRecognition stopped s)) = events s @ rest"
  by (auto simp: stopRecognition_def setActiveRecognitionSession_def call_listeners_eq abort_def
        emit_def logError_eq Let_def split: option.splits outcome.splits)

lemma continuous_onFinal_no_throw:
  assumes "\<forall>(phrase, callback) \<in> set (triggers ctl).
             matchPhrase txt phrase \<longrightarrow> cb_throws callback = None"
  shows "continuous_onFinal ctl txt newId now s =
           (None, (addFinalTranscript user txt newId now s)
              \<lparr>events := events (addFinalTranscript user txt newId now s) @
                   trigger_events (rs_abortController (session ctl)) txt (triggers ctl)\<rparr>)"
  using check_triggers_no_throw [OF assms] by (simp add: continuous_onFinal_def)

lemma once_onFinal_no_throw:
  assumes "\<forall>(phrase, callback) \<in> set (triggers ctl).
             matchPhrase txt phrase \<longrightarrow> cb_throws callback = None"
  shows "fst (once_onFinal ctl txt confidence newId now stopped s) = None"
    and "\<exists>rest. events (snd (snd (once_onFinal ctl txt confidence newId now stopped s))) =
           events (addFinalTranscript user txt newId now s) @
           trigger_events (rs_abortController (session ctl)) txt (triggers ctl) @ rest"
    and "promise ctl = Pending \<Longrightarrow>
         promise (fst (snd (once_onFinal ctl txt confidence newId now stopped s))) =
           Fulfilled \<lparr>rr_text = txt, rr_at = now, rr_confidence = confidence\<rparr>"
proof -
  let ?s1 = "(addFinalTranscript user txt newId now s)
              \<lparr>events := events (addFinalTranscript user txt newId now s) @
                   trigger_events (rs_abortController (session ctl)) txt (triggers ctl)\<rparr>"
  have eq: "once_onFinal ctl txt confidence newId now stopped s =
          (None,
           ctl\<lparr>promise := resolveResult
                  \<lparr>rr_text = txt, rr_at = now, rr_confidence = confidence\<rparr> (promise ctl)\<rparr>,
           snd (controller_stop stopped ?s1))"
    using check_triggers_no_throw [OF assms] by (simp add: once_onFinal_def)
  show "fst (once_onFinal ctl txt confidence newId now stopped s) = None"
    by (simp add: eq)
  from stopRecognition_events [of stopped ?s1]
  show "\<exists>rest. events (snd (snd (once_onFinal ctl txt confidence newId now stopped s))) =
           events (addFinalTranscript user txt newId now s) @
           trigger_events (rs_abortController (session ctl)) txt (triggers ctl) @ rest"
    by (simp add: eq controller_stop_def)
  show "promise (fst (snd (once_onFinal ctl txt confidence newId now stopped s))) =
           Fulfilled \<lparr>rr_text = txt, rr_at = now, rr_confidence = confidence\<rparr>"
    if "promise ctl = Pending"
    using that by (simp add: eq resolveResult_def)
qed

lemma listening_eval:
  "startRecognition default_recognize_options Resolved 1 bound_state =
     (Inr listening_controller, listening_state)"
  unfolding listening_state_def
  by (rule prod_eqI) (simp_all add: listening_controller_def bound_state_eval eval_defs)

lemma listening_state_events: "events listening_state = [SttStart 0 False]"
  "transcriptListeners listening_state = []"
  by (simp_all add: listening_state_def bound_state_eval eval_defs)

lemma yes_matches:
  "matchPhrase ''Yes  PLEASE'' ''yes''" "matchPhrase ''Yes  PLEASE'' ''yes please''"
  "\<not> matchPhrase ''Yes  PLEASE'' ''no thanks''"
  by code_simp+

subsection \<open>The conversation loop\<close>

text \<open>
  The pause for each kind of request, and the delay of the timer for a finite request
  below \<open>2\<^sup>3\<^sup>1\<close>: the whole milliseconds of the larger of the request and 500.
\<close>

lemma effective_pauseMs_facts:
  "effective_pauseMs None = Finite 1000"
  "effective_pauseMs (Some (Finite p)) = Finite (max p 500)"
  "effective_pauseMs (Some NaN) = NaN"
  "effective_pauseMs (Some Infinity) = Infinity"
  "effective_pauseMs (Some NegInfinity) = Finite 500"
  by (simp_all add: effective_pauseMs_def MIN_PAUSE_MS_def DEFAULT_PAUSE_MS_def)

lemma timer_delay_in_range:
  assumes "p < 2 ^ 31"
  shows "timer_delay (Finite (max p 500)) = \<lfloor>max p 500\<rfloor>"
    and "500 \<le> timer_delay (Finite (max p 500))"
proof -
  define r where "r = max p 500"
  have r: "500 \<le> r" "r < 2 ^ 31"
    using assms by (simp_all add: r_def)
  have lo: "500 \<le> \<lfloor>r\<rfloor>"
    using r(1) by (simp add: le_floor_iff)
  have hi: "\<lfloor>r\<rfloor> < 2 ^ 31"
    using r(2) by (simp add: floor_less_iff)
  have wrap: "\<lfloor>r\<rfloor> mod 2 ^ 32 = \<lfloor>r\<rfloor>"
    using lo hi by simp
  have pos: "0 \<le> r"
    using r(1) by simp
  have "ToInt32 (Finite r) = \<lfloor>r\<rfloor>"
    unfolding ToInt32_def number.case Let_def wrap using pos hi by simp
  then have "timer_delay (Finite r) = \<lfloor>r\<rfloor>"
    using lo by (simp add: timer_delay_def)
  then show "timer_delay (Finite (max p 500)) = \<lfloor>max p 500\<rfloor>"
    and "500 \<le> timer_delay (Finite (max p 500))"
    using lo by (simp_all add: r_def)
qed

lemma loop_body_success:
  assumes "recognizeOnce cap (Some signal) (t_signals t) s = (Some (Inr result), s1)"
    and "running (run_actions (t_while_listening t) s1)"
    and "callback result = Inr response"
    and "running (run_actions (t_while_responding t) (run_actions (t_while_listening t) s1))"
    and "startSynthesis response default_synthesize_options (t_ttsStopped t) (t_ttsStarted t)
           (t_now t) (t_newId t) (t_entryAt t)
           (run_actions (t_while_responding t) (run_actions (t_while_listening t) s1)) = (Inr (), s4)"
    and "running (run_actions (t_while_speaking t) s4)"
  shows "loop_body cap signal callback pauseMs t s =
           (Next, run_actions (t_while_pausing t)
                    (emit (Sleep pauseMs) (run_actions (t_while_speaking t) s4)))"
  using assms by (simp add: loop_body_def Let_def)

text \<open>
  An iteration in which recognition yields a result, the callback returns a response,
  the synthesis returns normally and the loop is still running at each of its checks:
  the loop calls \<^verbatim>\<open>setTimeout\<close> with the pause after the synthesis, and then goes on to
  the next iteration or, if it has been stopped or runs once, to its cleanup.
\<close>

lemma onRecognition_success:
  assumes "recognizeOnce (ch_caption chain) (Some (ch_abortController chain)) (t_signals t) s
             = (Some (Inr result), s1)"
    and "running (run_actions (t_while_listening t) s1)"
    and "callback result = Inr response"
    and "running (run_actions (t_while_responding t) (run_actions (t_while_listening t) s1))"
    and "startSynthesis response default_synthesize_options (t_ttsStopped t) (t_ttsStarted t)
           (t_now t) (t_newId t) (t_entryAt t)
           (run_actions (t_while_responding t) (run_actions (t_while_listening t) s1)) = (Inr (), s4)"
    and "running (run_actions (t_while_speaking t) s4)"
    and "s5 = run_actions (t_while_pausing t)
                (emit (Sleep (effective_pauseMs requested)) (run_actions (t_while_speaking t) s4))"
  shows "onRecognition chain callback requested (t # ts) s =
           (if ch_method chain = continuous_method \<and> running s5
            then onRecognition chain callback requested ts s5
            else (Finished, loop_cleanup s5))"
  using loop_body_success
      [where callback = callback and result = result and response = response
         and pauseMs = "effective_pauseMs requested", OF assms(1-6)]
  by (simp add: onRecognition_def assms(7))

lemmas conversation_defs =
  startConversation_def stopConversation_def onRecognition_def
  loop_body_def loop_catch_def loop_cleanup_def recognizeOnce_def running_def
  effective_pauseMs_def MIN_PAUSE_MS_def DEFAULT_PAUSE_MS_def

lemma conversation_started_eval:
  "fst conversation_started =
     \<lparr>ch_method = continuous_method, ch_caption = True, ch_abortController = 0\<rparr>"
  "events (snd conversation_started) = []"
  "running (snd conversation_started)"
  by (simp_all add: conversation_started_def bound_state_eval conversation_defs eval_defs)

lemma ping_heard_eval:
  "recognizeOnce True (Some 0) (t_signals ping_turn) (snd conversation_started) =
     (Some (Inr ping_result), ping_heard)"
  "running ping_heard"
  "events ping_heard = [SttStart 0 True]"
  unfolding ping_heard_def
  by (rule prod_eqI)
     (simp_all add: conversation_started_def ping_turn_def ping_result_def bound_state_eval
        conversation_defs eval_defs)

lemma ping_spoken_eval:
  "startSynthesis ''echo: ping'' default_synthesize_options Resolved Resolved 3 ''3-c'' 3
     ping_heard = (Inr (), ping_spoken)"
  "running ping_spoken"
  "events ping_spoken = [SttStart 0 True, TtsStart ''echo: ping'' 2]"
  "transcript ping_spoken =
     [\<lparr>entry_id = ''2-b'', entry_role = user, entry_text = ''ping'', entry_at = 2, final = True\<rparr>,
      \<lparr>entry_id = ''3-c'', entry_role = assistant, entry_text = ''echo: ping'', entry_at = 3,
        final = True\<rparr>]"
  "stt ping_spoken"
  unfolding ping_spoken_def ping_heard_def
  by (rule prod_eqI)
     (simp_all add: conversation_started_def ping_turn_def ping_result_def bound_state_eval
        conversation_defs eval_defs)

subsection \<open>Reachable transcript states\<close>

lemma transcript_ok_reachable: "transcript_reachable s \<Longrightarrow> transcript_ok s"
proof (induction rule: transcript_reachable.induct)
  case initial
  show ?case by (rule transcript_ok_initial)
next
  case (addInterim s r x i n)
  from transcript_ok_call [OF addInterim.IH, of "CallAddInterim r x i n"]
  show ?case by simp
next
  case (addFinal s r x i n)
  from transcript_ok_call [OF addFinal.IH, of "CallAddFinal r x i n"]
  show ?case by simp
next
  case (clear s)
  from transcript_ok_call [OF clear.IH, of CallClear]
  show ?case by simp
next
  case (getSnapshot s)
  from transcript_ok_call [OF getSnapshot.IH, of CallGetSnapshot]
  show ?case by simp
next
  case (notify s)
  then show ?case by (simp add: transcript_ok_def)
next
  case (other s s')
  then show ?case by (simp add: transcript_ok_def)
qed

lemma transcript_reachable_calls:
  "transcript_reachable s \<Longrightarrow> transcript_reachable (run_transcript_calls cs s)"
proof (induction cs arbitrary: s)
  case Nil
  then show ?case by simp
next
  case (Cons c cs)
  have "transcript_reachable (run_transcript_call c s)"
    using Cons.prems by (cases c) (auto intro: transcript_reachable.intros)
  then show ?case using Cons.IH by simp
qed

lemma call_listeners_frame [simp]:
  "transcript (snd (call_listeners d ls s)) = transcript s"
  "cachedTranscriptSnapshot (snd (call_listeners d ls s)) = cachedTranscriptSnapshot s"
  by (simp_all add: call_listeners_eq)

lemma call_listeners_caught_frame [simp]:
  "transcript (call_listeners_caught d ls s) = transcript s"
  "cachedTranscriptSnapshot (call_listeners_caught d ls s) = cachedTranscriptSnapshot s"
  by (simp_all add: call_listeners_caught_eq)

lemma same_transcript_refl [simp]: "same_transcript s s"
  by (simp add: same_transcript_def)

lemma same_transcript_trans: "same_transcript s s1 \<Longrightarrow> same_transcript s1 s2 \<Longrightarrow> same_transcript s s2"
  by (simp add: same_transcript_def)

lemma transcript_reachable_same:
  "transcript_reachable s \<Longrightarrow> same_transcript s s' \<Longrightarrow> transcript_reachable s'"
  by (auto simp: same_transcript_def intro: transcript_reachable.other)

lemma same_transcript_basic [simp]:
  "same_transcript s (emit e s)"
  "same_transcript s (abort c s)"
  "same_transcript s (console_error l s)"
  "same_transcript s (logError err ctx s)"
  "same_transcript s (snd (newAbortController s))"
  "same_transcript s (snd (setActiveSynthesisSession a s))"
  "same_transcript s (snd (setActiveRecognitionSession b s))"
  "same_transcript s (setError err' s)"
  "same_transcript s (notifyConversation s)"
  by (simp_all add: same_transcript_def emit_def abort_def console_error_def logError_eq
        newAbortController_def setActiveSynthesisSession_def setActiveRecognitionSession_def
        setError_def notifyQonvo_def notifyConversation_def)

lemma same_transcript_handleError [simp]: "same_transcript s (handleError e cb s)"
  by (simp add: same_transcript_def handleError_def setError_def notifyQonvo_def
        call_error_callback_def console_error_def Let_def split: option.splits)

lemma same_transcript_stopSynthesis [simp]: "same_transcript s (snd (stopSynthesis stopped s))"
  by (simp add: same_transcript_def stopSynthesis_def setActiveSynthesisSession_def
        call_listeners_eq abort_def emit_def logError_eq Let_def
        split: option.splits outcome.splits)

lemma same_transcript_stopRecognition [simp]: "same_transcript s (snd (stopRecognition stopped s))"
  by (simp add: same_transcript_def stopRecognition_def setActiveRecognitionSession_def
        call_listeners_eq abort_def emit_def logError_eq Let_def
        split: option.splits outcome.splits)

lemma same_transcript_pause_resume [simp]:
  "same_transcript s (snd (pauseSynthesis paused now s))"
  "same_transcript s (snd (resumeSynthesis resumed s))"
  by (simp_all add: same_transcript_def pauseSynthesis_def resumeSynthesis_def
        synthesis_catch_def setActiveSynthesisSession_def call_listeners_eq emit_def
        logError_eq Let_def split: option.splits outcome.splits)

lemma same_transcript_check_triggers [simp]:
  "same_transcript s (snd (check_triggers this heard trigs s))"
proof (induction trigs arbitrary: s)
  case Nil
  show ?case by simp
next
  case (Cons pc trigs)
  obtain p cb where pc: "pc = (p, cb)" by (cases pc)
  have step: "same_transcript s (emit (Triggered (cb_id cb) this) s)" by simp
  show ?case
    using Cons.IH [of s] Cons.IH [of "emit (Triggered (cb_id cb) this) s"] step
    by (auto simp: pc Let_def same_transcript_def split: option.splits)
qed

lemma same_transcript_processVoiceError [simp]:
  "same_transcript s (snd (processVoiceError e ctx
      \<lparr>po_defaultCode = d, po_onError = cb, po_handleError = Some handleError,
       po_shouldThrow = th\<rparr> s))"
proof -
  let ?v = "toVoiceError e (case d of Some c \<Rightarrow> c | None \<Rightarrow> TTS_FAILED)"
  have "same_transcript s (handleError ?v cb s)" by simp
  moreover have "same_transcript (handleError ?v cb s)
      (if shouldLogError ?v then logError ?v ctx (handleError ?v cb s) else handleError ?v cb s)"
    by simp
  ultimately have "same_transcript s
      (if shouldLogError ?v then logError ?v ctx (handleError ?v cb s) else handleError ?v cb s)"
    by (rule same_transcript_trans)
  then show ?thesis
    by (auto simp: processVoiceError_def Let_def split: sum.splits option.splits if_splits)
qed

lemma same_transcript_finally [simp]:
  "same_transcript s (snd (startSynthesis_finally c (r, s)))"
proof (cases "setActiveSynthesisSession None s")
  case (Pair t s1)
  have "same_transcript s s1"
    using same_transcript_basic(6) [of s None] Pair by simp
  then show ?thesis
    by (simp add: startSynthesis_finally_def Pair split: option.splits)
qed

lemma transcript_reachable_settle:
  assumes "transcript_reachable s"
  shows "transcript_reachable (snd (startSynthesis_settle options c started s))"
proof (cases started)
  case Resolved
  with assms show ?thesis
    by (auto simp: startSynthesis_settle_def intro: transcript_reachable_same)
next
  case (Rejected e)
  let ?p = "processVoiceError e ''startSynthesis''
              \<lparr>po_defaultCode = Some TTS_FAILED, po_onError = so_onError options,
               po_handleError = Some handleError, po_shouldThrow = Some True\<rparr> s"
  have "transcript_reachable (snd ?p)"
    using assms by (rule transcript_reachable_same) simp
  then have fin: "transcript_reachable (snd (startSynthesis_finally c (r, snd ?p)))" for r
    by (rule transcript_reachable_same) simp
  obtain r s1 where p: "?p = (r, s1)" by (cases ?p)
  have "transcript_reachable (snd (startSynthesis_finally c (r', s1)))" for r'
    using fin [of r'] by (simp add: p)
  then show ?thesis
    using p Rejected by (cases r) (simp_all add: startSynthesis_settle_def)
qed

lemma transcript_reachable_begin:
  assumes "transcript_reachable s"
  shows "transcript_reachable (snd (startSynthesis_begin heard options stopped now newId entryAt s))"
proof (cases "tts s")
  case False
  with assms show ?thesis by (simp add: startSynthesis_begin_def)
next
  case True
  let ?p = "if activeSynthesisSession s \<noteq> None then stopSynthesis stopped s else (Inr (), s)"
  obtain r0 s0 where p: "?p = (r0, s0)" by (cases ?p)
  have "same_transcript s (snd ?p)" by simp
  then have r0: "transcript_reachable s0"
    using assms p by (auto intro: transcript_reachable_same)
  show ?thesis
  proof (cases r0)
    case (Inl t)
    with True p r0 show ?thesis by (simp add: startSynthesis_begin_def)
  next
    case (Inr u)
    let ?sess = "\<lparr>ss_text = heard, ss_abortController = nextController s0,
                   ss_startedAt = now, pausedAt = None\<rparr>"
    let ?q = "setActiveSynthesisSession (Some ?sess) (s0\<lparr>nextController := Suc (nextController s0)\<rparr>)"
    obtain t s2 where q: "?q = (t, s2)" by (cases ?q)
    have "same_transcript s0 (snd ?q)"
      by (simp add: same_transcript_def setActiveSynthesisSession_def call_listeners_eq)
    then have r2: "transcript_reachable s2"
      using r0 q by (auto intro: transcript_reachable_same)
    have r4: "transcript_reachable (emit e (addFinalTranscript assistant heard newId entryAt
                (setError None s2)))" for e
    proof -
      have "transcript_reachable (setError None s2)"
        using r2 by (rule transcript_reachable_same) simp
      then have "transcript_reachable (addFinalTranscript assistant heard newId entryAt
                   (setError None s2))"
        by (rule transcript_reachable.addFinal)
      then show ?thesis
        by (rule transcript_reachable_same) simp
    qed
    show ?thesis
      using True p Inr q r2 r4
      by (cases t) (simp_all add: startSynthesis_begin_def newAbortController_def Let_def)
  qed
qed

lemma transcript_reachable_startSynthesis:
  assumes "transcript_reachable s"
  shows "transcript_reachable (snd (startSynthesis heard options stopped started now newId entryAt s))"
proof -
  let ?b = "startSynthesis_begin heard options stopped now newId entryAt s"
  obtain r s1 where b: "?b = (r, s1)" by (cases ?b)
  have r1: "transcript_reachable s1"
    using transcript_reachable_begin [OF assms, of heard options stopped now newId entryAt]
    by (simp add: b)
  show ?thesis
    using b r1 transcript_reachable_settle [OF r1]
    by (cases r) (simp_all add: startSynthesis_def)
qed

lemma transcript_reachable_handlers:
  assumes "transcript_reachable s"
  shows "transcript_reachable (handler_onPartial ctl heard newId now s)"
    and "transcript_reachable (snd (continuous_onFinal ctl heard newId now s))"
    and "transcript_reachable (snd (snd (once_onFinal ctl heard confidence newId now stopped s)))"
proof -
  show "transcript_reachable (handler_onPartial ctl heard newId now s)"
    using assms by (auto simp: handler_onPartial_def intro: transcript_reachable.addInterim)
  have f: "transcript_reachable (addFinalTranscript user heard newId now s)"
    using assms by (rule transcript_reachable.addFinal)
  have c: "transcript_reachable (snd (check_triggers this heard trigs
              (addFinalTranscript user heard newId now s)))" for this trigs
    using f by (rule transcript_reachable_same) simp
  show "transcript_reachable (snd (continuous_onFinal ctl heard newId now s))"
    using c by (simp add: continuous_onFinal_def)
  let ?k = "check_triggers (rs_abortController (session ctl)) heard (triggers ctl)
              (addFinalTranscript user heard newId now s)"
  obtain t s1 where k: "?k = (t, s1)" by (cases ?k)
  have r1: "transcript_reachable s1"
    using c [of "rs_abortController (session ctl)" "triggers ctl"] by (simp add: k)
  have "transcript_reachable (snd (stopRecognition stopped s1))"
    using r1 by (rule transcript_reachable_same) simp
  with r1 k
  show "transcript_reachable (snd (snd (once_onFinal ctl heard confidence newId now stopped s)))"
    by (cases t) (simp_all add: once_onFinal_def controller_stop_def)
qed

lemma transcript_reachable_recognizeOnce_handlers:
  "transcript_reachable s \<Longrightarrow> transcript_reachable (snd (recognizeOnce_handlers cap sigs s))"
proof (induction cap sigs s rule: recognizeOnce_handlers.induct)
  case (1 cap s)
  then show ?case by simp
next
  case (2 cap heard newId now sigs s)
  then show ?case by (cases cap) (simp_all add: transcript_reachable.addInterim)
next
  case (3 cap heard confidence newId now sigs s)
  then show ?case by (simp add: transcript_reachable.addFinal)
next
  case (4 cap error sigs s)
  then show ?case by auto
next
  case (5 cap error sigs s)
  then show ?case by (auto simp: Let_def)
qed

lemma transcript_reachable_recognizeOnce:
  assumes "transcript_reachable s"
  shows "transcript_reachable (snd (recognizeOnce cap optSignal sigs s))"
proof -
  have "transcript_reachable (emit e (snd (newAbortController s)))" for e
    using assms by (rule transcript_reachable_same)
       (simp add: same_transcript_def emit_def newAbortController_def)
  then show ?thesis
    using assms transcript_reachable_recognizeOnce_handlers
    by (simp add: recognizeOnce_def newAbortController_def)
qed

lemma same_transcript_stopConversation [simp]:
  "same_transcript s (stopConversation sttStopped ttsStopped s)"
proof -
  let ?s1 = "case activeConversationLoop s of
               Some l \<Rightarrow> notifyConversation
                          ((abort (cl_abortController l) s)\<lparr>activeConversationLoop := None\<rparr>)
             | None \<Rightarrow> s"
  have a: "same_transcript s ?s1"
    by (simp add: same_transcript_def notifyConversation_def abort_def emit_def
          split: option.splits)
  have b: "same_transcript ?s1 (snd (stopRecognition sttStopped ?s1))" by simp
  have c: "same_transcript (snd (stopRecognition sttStopped ?s1))
             (snd (stopSynthesis ttsStopped (snd (stopRecognition sttStopped ?s1))))" by simp
  from a b c show ?thesis
    unfolding stopConversation_def Let_def by (blast intro: same_transcript_trans)
qed

lemma transcript_reachable_run_actions:
  "transcript_reachable s \<Longrightarrow> transcript_reachable (run_actions acts s)"
proof (induction acts arbitrary: s)
  case Nil
  then show ?case by simp
next
  case (Cons a acts)
  have "transcript_reachable (run_action a s)"
  proof (cases a)
    case (AppStopConversation x y)
    with Cons.prems show ?thesis by (auto intro: transcript_reachable_same)
  next
    case AppClearTranscript
    with Cons.prems show ?thesis by (auto intro: transcript_reachable.clear)
  next
    case AppClearError
    have "same_transcript s (clearError s)"
      by (simp add: same_transcript_def clearError_def notifyQonvo_def)
    with Cons.prems AppClearError show ?thesis by (auto intro: transcript_reachable_same)
  qed
  then show ?case using Cons.IH by simp
qed

lemma transcript_reachable_loop_catch:
  assumes "transcript_reachable s"
  shows "transcript_reachable (snd (loop_catch error s))"
proof -
  have "same_transcript s (snd (loop_catch error s))"
    by (simp add: same_transcript_def loop_catch_def logError_eq logError_other_def emit_def
          console_error_def split: thrown.splits)
  with assms show ?thesis by (rule transcript_reachable_same)
qed

lemma transcript_reachable_loop_body:
  assumes "transcript_reachable s"
  shows "transcript_reachable (snd (loop_body cap signal callback pauseMs t s))"
proof -
  let ?r = "recognizeOnce cap (Some signal) (t_signals t) s"
  obtain o1 s1 where r: "?r = (o1, s1)" by (cases ?r)
  have r1: "transcript_reachable s1"
    using transcript_reachable_recognizeOnce [OF assms, of cap "Some signal" "t_signals t"]
    by (simp add: r)
  let ?s2 = "run_actions (t_while_listening t) s1"
  have r2: "transcript_reachable ?s2"
    using r1 by (rule transcript_reachable_run_actions)
  let ?s3 = "run_actions (t_while_responding t) ?s2"
  have r3: "transcript_reachable ?s3"
    using r2 by (rule transcript_reachable_run_actions)
  show ?thesis
  proof (cases o1)
    case None
    with r r1 show ?thesis by (simp add: loop_body_def)
  next
    case (Some res)
    show ?thesis
    proof (cases res)
      case (Inl e)
      with r Some transcript_reachable_loop_catch [OF r2] show ?thesis
        by (simp add: loop_body_def)
    next
      case (Inr result)
      show ?thesis
      proof (cases "callback result")
        case (Inl e)
        with r Some \<open>res = Inr result\<close> r2 transcript_reachable_loop_catch [OF r3]
        show ?thesis by (simp add: loop_body_def Let_def)
      next
        case cb: (Inr response)
        let ?y = "startSynthesis response default_synthesize_options (t_ttsStopped t)
                    (t_ttsStarted t) (t_now t) (t_newId t) (t_entryAt t) ?s3"
        obtain o4 s4 where y: "?y = (o4, s4)" by (cases ?y)
        have r4: "transcript_reachable s4"
          using transcript_reachable_startSynthesis [OF r3, of response
              default_synthesize_options "t_ttsStopped t" "t_ttsStarted t" "t_now t"
              "t_newId t" "t_entryAt t"]
          by (simp add: y)
        let ?s5 = "run_actions (t_while_speaking t) s4"
        have r5: "transcript_reachable ?s5"
          using r4 by (rule transcript_reachable_run_actions)
        have r6: "transcript_reachable (run_actions (t_while_pausing t) (emit (Sleep pauseMs) ?s5))"
          by (rule transcript_reachable_run_actions [OF transcript_reachable_same [OF r5]]) simp
        show ?thesis
          using r Some \<open>res = Inr result\<close> cb y r2 r3 r5 r6
            transcript_reachable_loop_catch [OF r5]
          by (cases o4) (simp_all add: loop_body_def Let_def)
      qed
    qed
  qed
qed

lemma transcript_reachable_conversation_loop:
  "transcript_reachable s \<Longrightarrow>
   transcript_reachable (snd (conversation_loop method cap signal callback pauseMs turns s))"
proof (induction turns arbitrary: s)
  case Nil
  then show ?case by simp
next
  case (Cons t turns)
  let ?b = "loop_body cap signal callback pauseMs t s"
  obtain st s1 where b: "?b = (st, s1)" by (cases ?b)
  have r1: "transcript_reachable s1"
    using transcript_reachable_loop_body [OF Cons.prems, of cap signal callback pauseMs t]
    by (simp add: b)
  have c: "transcript_reachable (loop_cleanup s1)"
    using r1 by (rule transcript_reachable_same)
       (simp add: same_transcript_def loop_cleanup_def notifyConversation_def)
  show ?case
    using b r1 c Cons.IH [OF r1] by (cases st) auto
qed

lemma same_transcript_startRecognition [simp]:
  "same_transcript s (snd (startRecognition options stopped now s))"
proof (cases "stt s")
  case False
  then show ?thesis by (simp add: startRecognition_def)
next
  case True
  let ?p = "if activeRecognitionSession s \<noteq> None
            then (case setActiveRecognitionSession None s of
                    (Some t, s1) \<Rightarrow> (Some t, s1)
                  | (None, s1) \<Rightarrow> (None, snd (stopRecognition stopped s1)))
            else (None, s)"
  obtain t s2 where p: "?p = (t, s2)" by (cases ?p)
  have a: "same_transcript s s2"
  proof (cases "activeRecognitionSession s \<noteq> None")
    case False
    with p show ?thesis by simp
  next
    case active: True
    obtain t1 s1 where q: "setActiveRecognitionSession None s = (t1, s1)"
      by (cases "setActiveRecognitionSession None s")
    have s1: "same_transcript s s1"
      using same_transcript_basic(7) [of s None] q by simp
    have "same_transcript s1 (snd (stopRecognition stopped s1))" by simp
    with s1 have "same_transcript s (snd (stopRecognition stopped s1))"
      by (rule same_transcript_trans)
    with active p q s1 show ?thesis by (cases t1) auto
  qed
  let ?m = "case ro_method options of Some m \<Rightarrow> m | None \<Rightarrow> continuous_method"
  have b: "same_transcript s2 (snd (new_UnifiedRecognitionController ?m options now s2))"
    by (simp add: same_transcript_def new_UnifiedRecognitionController_def
          newAbortController_def setActiveRecognitionSession_def call_listeners_eq
          setError_def notifyQonvo_def emit_def Let_def split: option.splits)
  show ?thesis
    using True p a same_transcript_trans [OF a b]
    by (cases t) (simp_all add: startRecognition_def)
qed

subsection \<open>White space in normalisation\<close>

lemma dropWhile_all_spaces:
  "\<forall>x \<in> set cs. is_space x \<Longrightarrow> dropWhile is_space (cs @ zs) = dropWhile is_space zs"
  by (simp add: dropWhile_append)

lemma dropWhile_some_nonspace:
  "\<not> (\<forall>x \<in> set cs. is_space x) \<Longrightarrow> dropWhile is_space (cs @ zs) = dropWhile is_space cs @ zs"
  by (auto simp: dropWhile_append)

lemma trim_leading: "is_space a \<Longrightarrow> trim (a # s) = trim s"
  by (simp add: trim_def)

lemma trim_trailing:
  assumes "is_space a"
  shows "trim (s @ [a]) = trim s"
proof (cases "\<forall>x \<in> set s. is_space x")
  case True
  have one: "dropWhile is_space s = []"
    using True by simp
  have "dropWhile is_space (s @ [a]) = dropWhile is_space [a]"
    using True by (rule dropWhile_all_spaces)
  with assms have two: "dropWhile is_space (s @ [a]) = []"
    by simp
  show ?thesis
    unfolding trim_def one two by simp
next
  case False
  then have "dropWhile is_space (s @ [a]) = dropWhile is_space s @ [a]"
    by (rule dropWhile_some_nonspace)
  then show ?thesis using assms by (simp add: trim_def)
qed

lemma normalize_leading: "is_space a \<Longrightarrow> normalize (a # s) = normalize s"
  by (simp add: normalize_def trim_leading)

lemma normalize_trailing: "is_space a \<Longrightarrow> normalize (s @ [a]) = normalize s"
  by (simp add: normalize_def trim_trailing)

lemma collapse_spaces_run:
  "is_space a \<Longrightarrow> is_space b \<Longrightarrow>
   collapse_spaces (xs @ a # b # ys) = collapse_spaces (xs @ a # ys)"
proof (induction xs rule: length_induct)
  case (1 xs)
  note a = \<open>is_space a\<close> and b = \<open>is_space b\<close>
  show ?case
  proof (cases xs)
    case Nil
    with a b show ?thesis by simp
  next
    case (Cons c cs)
    show ?thesis
    proof (cases "is_space c")
      case False
      have "length cs < length xs" using Cons by simp
      with 1(1) a b have "collapse_spaces (cs @ a # b # ys) = collapse_spaces (cs @ a # ys)"
        by blast
      with False Cons show ?thesis by simp
    next
      case True
      show ?thesis
      proof (cases "\<forall>x \<in> set cs. is_space x")
        case all: True
        have "dropWhile is_space (cs @ a # b # ys) = dropWhile is_space ys"
          "dropWhile is_space (cs @ a # ys) = dropWhile is_space ys"
          using a b by (simp_all add: dropWhile_all_spaces [OF all])
        with True Cons show ?thesis by simp
      next
        case some: False
        have len: "length (dropWhile is_space cs) < length xs"
          using Cons by (simp add: le_imp_less_Suc length_dropWhile_le)
        from 1(1) len a b
        have ih: "collapse_spaces (dropWhile is_space cs @ a # b # ys) =
              collapse_spaces (dropWhile is_space cs @ a # ys)" by blast
        have "dropWhile is_space (cs @ a # b # ys) = dropWhile is_space cs @ a # b # ys"
          "dropWhile is_space (cs @ a # ys) = dropWhile is_space cs @ a # ys"
          by (simp_all only: dropWhile_some_nonspace [OF some])
        with True Cons ih show ?thesis by simp
      qed
    qed
  qed
qed

lemma collapse_spaces_any_space:
  "is_space a \<Longrightarrow> collapse_spaces (xs @ a # ys) = collapse_spaces (xs @ CHR '' '' # ys)"
proof (induction xs rule: length_induct)
  case (1 xs)
  note a = \<open>is_space a\<close>
  have sp: "is_space CHR '' ''" by (simp add: is_space_def)
  show ?case
  proof (cases xs)
    case Nil
    with a sp show ?thesis by simp
  next
    case (Cons c cs)
    show ?thesis
    proof (cases "is_space c")
      case False
      have "length cs < length xs" using Cons by simp
      with 1(1) a have "collapse_spaces (cs @ a # ys) = collapse_spaces (cs @ CHR '' '' # ys)"
        by blast
      with False Cons show ?thesis by simp
    next
      case True
      show ?thesis
      proof (cases "\<forall>x \<in> set cs. is_space x")
        case all: True
        have "dropWhile is_space (cs @ a # ys) = dropWhile is_space ys"
          "dropWhile is_space (cs @ CHR '' '' # ys) = dropWhile is_space ys"
          using a sp by (simp_all add: dropWhile_all_spaces [OF all])
        with True Cons show ?thesis by simp
      next
        case some: False
        have len: "length (dropWhile is_space cs) < length xs"
          using Cons by (simp add: le_imp_less_Suc length_dropWhile_le)
        from 1(1) len a
        have ih: "collapse_spaces (dropWhile is_space cs @ a # ys) =
              collapse_spaces (dropWhile is_space cs @ CHR '' '' # ys)" by blast
        have "dropWhile is_space (cs @ a # ys) = dropWhile is_space cs @ a # ys"
          "dropWhile is_space (cs @ CHR '' '' # ys) = dropWhile is_space cs @ CHR '' '' # ys"
          by (simp_all only: dropWhile_some_nonspace [OF some])
        with True Cons ih show ?thesis by simp
      qed
    qed
  qed
qed

lemma trim_all_spaces_left:
  "\<forall>x \<in> set xs. is_space x \<Longrightarrow> trim (xs @ s) = trim s"
  by (induction xs) (simp_all add: trim_leading)

lemma trim_all_spaces_right:
  "\<forall>x \<in> set ys. is_space x \<Longrightarrow> trim (s @ ys) = trim s"
proof (induction ys rule: rev_induct)
  case Nil
  show ?case by simp
next
  case (snoc y ys)
  then have "trim ((s @ ys) @ [y]) = trim (s @ ys)"
    by (intro trim_trailing) simp
  with snoc show ?case by simp
qed

lemma trim_middle:
  assumes "\<not> (\<forall>x \<in> set xs. is_space x)" "\<not> (\<forall>x \<in> set ys. is_space x)"
  shows "trim (xs @ m @ ys) = dropWhile is_space xs @ m @ rev (dropWhile is_space (rev ys))"
proof -
  have 1: "dropWhile is_space (xs @ m @ ys) = dropWhile is_space xs @ m @ ys"
    using assms(1) by (rule dropWhile_some_nonspace)
  have "\<not> (\<forall>x \<in> set (rev ys). is_space x)"
    using assms(2) by simp
  then have 2: "dropWhile is_space (rev ys @ rev m @ rev (dropWhile is_space xs)) =
                dropWhile is_space (rev ys) @ rev m @ rev (dropWhile is_space xs)"
    by (rule dropWhile_some_nonspace)
  show ?thesis
    by (simp add: trim_def 1 2)
qed

lemma normalize_run:
  assumes a: "is_space a" and b: "is_space b"
  shows "normalize (xs @ a # b # ys) = normalize (xs @ a # ys)"
proof (cases "\<forall>x \<in> set xs. is_space x")
  case True
  have "trim (xs @ a # b # ys) = trim ys" "trim (xs @ a # ys) = trim ys"
    using a b by (simp_all add: trim_all_spaces_left [OF True] trim_leading)
  then show ?thesis by (simp add: normalize_def)
next
  case left: False
  show ?thesis
  proof (cases "\<forall>x \<in> set ys. is_space x")
    case True
    have all: "\<forall>x \<in> set (a # b # ys). is_space x" "\<forall>x \<in> set (a # ys). is_space x"
      using a b True by simp_all
    have "trim (xs @ a # b # ys) = trim xs" "trim (xs @ a # ys) = trim xs"
      by (rule trim_all_spaces_right [OF all(1)], rule trim_all_spaces_right [OF all(2)])
    then show ?thesis by (simp add: normalize_def)
  next
    case right: False
    have "trim (xs @ [a, b] @ ys) =
            dropWhile is_space xs @ [a, b] @ rev (dropWhile is_space (rev ys))"
      "trim (xs @ [a] @ ys) = dropWhile is_space xs @ [a] @ rev (dropWhile is_space (rev ys))"
      by (rule trim_middle [OF left right])+
    then show ?thesis
      using a b
      by (simp add: normalize_def toLowerCase_def
            collapse_spaces_run [where a = "lower_char a" and b = "lower_char b"])
  qed
qed

lemma normalize_any_space:
  assumes a: "is_space a"
  shows "normalize (xs @ a # ys) = normalize (xs @ CHR '' '' # ys)"
proof -
  have sp: "is_space CHR '' ''" by (simp add: is_space_def)
  have lsp: "lower_char CHR '' '' = CHR '' ''" by (simp add: lower_char_def is_upper_def)
  show ?thesis
  proof (cases "\<forall>x \<in> set xs. is_space x")
    case True
    have "trim (xs @ a # ys) = trim ys" "trim (xs @ CHR '' '' # ys) = trim ys"
      using a sp by (simp_all add: trim_all_spaces_left [OF True] trim_leading)
    then show ?thesis by (simp add: normalize_def)
  next
    case left: False
    show ?thesis
    proof (cases "\<forall>x \<in> set ys. is_space x")
      case True
      have all: "\<forall>x \<in> set (a # ys). is_space x" "\<forall>x \<in> set (CHR '' '' # ys). is_space x"
        using a sp True by simp_all
      have "trim (xs @ a # ys) = trim xs" "trim (xs @ CHR '' '' # ys) = trim xs"
        by (rule trim_all_spaces_right [OF all(1)], rule trim_all_spaces_right [OF all(2)])
      then show ?thesis by (simp add: normalize_def)
    next
      case right: False
      have "trim (xs @ [a] @ ys) = dropWhile is_space xs @ [a] @ rev (dropWhile is_space (rev ys))"
        "trim (xs @ [CHR '' ''] @ ys) =
           dropWhile is_space xs @ [CHR '' ''] @ rev (dropWhile is_space (rev ys))"
        by (rule trim_middle [OF left right])+
      then show ?thesis
        using a
        by (simp add: normalize_def toLowerCase_def lsp
              collapse_spaces_any_space [where a = "lower_char a"])
    qed
  qed
qed

subsection \<open>Publishing and restarting sessions\<close>

text \<open>
  Every \<^verbatim>\<open>notify*\<close> function calls every listener of its domain. The two
  \<^verbatim>\<open>setActive*Session\<close> functions call the listeners up to the first one that throws
  and return its exception. \<^verbatim>\<open>startRecognition\<close> never aborts a controller and never
  calls \<^verbatim>\<open>stt.stop()\<close>, whatever the state; \<^verbatim>\<open>startSynthesis\<close> on an active session
  aborts its controller and calls \<^verbatim>\<open>tts.stop()\<close> before it calls \<^verbatim>\<open>tts.start\<close>.
\<close>

lemma notify_calls_every_listener:
  "events (notifySynthesis s) =
     events s @ map (\<lambda>l. Notified Synthesis (lid l)) (synthesisListeners s)"
  "events (notifyRecognition s) =
     events s @ map (\<lambda>l. Notified Recognition (lid l)) (recognitionListeners s)"
  "events (notifyTranscript s) =
     events s @ map (\<lambda>l. Notified Transcript (lid l)) (transcriptListeners s)"
  "events (notifyQonvo s) =
     events s @ map (\<lambda>l. Notified Qonvo (lid l)) (qonvoListeners s)"
  "events (notifyConversation s) =
     events s @ map (\<lambda>l. Notified Conversation (lid l)) (conversationListeners s)"
  by (simp_all add: notifySynthesis_def notifyRecognition_def notifyTranscript_def
        notifyQonvo_def notifyConversation_def call_listeners_caught_eq)

lemma setActiveSession_calls_until_throw:
  "setActiveSynthesisSession a s =
     (first_throw (synthesisListeners s),
      s\<lparr>activeSynthesisSession := a, cachedSynthesisSnapshot := None,
        events := events s @ map (\<lambda>l. Notified Synthesis (lid l))
                              (called_until_throw (synthesisListeners s))\<rparr>)"
  "setActiveRecognitionSession b s =
     (first_throw (recognitionListeners s),
      s\<lparr>activeRecognitionSession := b, cachedRecognitionSnapshot := None,
        events := events s @ map (\<lambda>l. Notified Recognition (lid l))
                              (called_until_throw (recognitionListeners s))\<rparr>)"
  by (simp_all add: setActiveSynthesisSession_def setActiveRecognitionSession_def
        call_listeners_eq)

lemma startRecognition_signals_nothing:
  "aborted (snd (startRecognition options stopped now s)) c = aborted s c"
  "SttStop \<in> set (events (snd (startRecognition options stopped now s))) \<longleftrightarrow>
     SttStop \<in> set (events s)"
proof -
  let ?quiet = "\<lambda>s'. (\<forall>c. aborted s' c = aborted s c) \<and>
                     (SttStop \<in> set (events s') \<longleftrightarrow> SttStop \<in> set (events s))"
  have "?quiet (snd (startRecognition options stopped now s))"
    by (auto simp: startRecognition_def stopRecognition_def new_UnifiedRecognitionController_def
          newAbortController_def setActiveSession_calls_until_throw setError_def
          notifyQonvo_def call_listeners_caught_eq emit_def aborted_def Let_def
          split: option.splits prod.splits if_splits)
  then show "aborted (snd (startRecognition options stopped now s)) c = aborted s c"
    "SttStop \<in> set (events (snd (startRecognition options stopped now s))) \<longleftrightarrow>
       SttStop \<in> set (events s)"
    by blast+
qed

lemma startSynthesis_begin_retires_prior:
  assumes "tts s" "activeSynthesisSession s = Some a"
    and "\<forall>l \<in> set (synthesisListeners s). lthrows l = None"
  shows "\<exists>c pre post.
           startSynthesis_begin heard options stopped now newId entryAt s
             = (Inr c, snd (startSynthesis_begin heard options stopped now newId entryAt s))
           \<and> events (snd (startSynthesis_begin heard options stopped now newId entryAt s)) =
               events s @ pre @ [Abort (ss_abortController a), TtsStop] @ post @
               [TtsStart heard (case so_signal options of Some g \<Rightarrow> g | None \<Rightarrow> c)]"
proof -
  from assms(3) have ft: "first_throw (synthesisListeners s) = None"
    by (simp add: first_throw_None)
  have "startSynthesis_begin heard options stopped now newId entryAt s
          = (Inr (nextController s),
             snd (startSynthesis_begin heard options stopped now newId entryAt s))
        \<and> events (snd (startSynthesis_begin heard options stopped now newId entryAt s)) =
            events s @ map (\<lambda>l. Notified Synthesis (lid l)) (synthesisListeners s) @
            [Abort (ss_abortController a), TtsStop] @
            (map (\<lambda>l. Notified Synthesis (lid l)) (synthesisListeners s) @
             map (\<lambda>l. Notified Qonvo (lid l)) (qonvoListeners s) @
             map (\<lambda>l. Notified Transcript (lid l)) (transcriptListeners s)) @
            [TtsStart heard (case so_signal options of Some g \<Rightarrow> g | None \<Rightarrow> nextController s)]"
    using assms(1,2) ft
    by (simp add: startSynthesis_begin_def stopSynthesis_active [OF assms]
          newAbortController_def setActiveSession_calls_until_throw called_until_throw_all
          setError_def notifyQonvo_def addFinalTranscript_def notifyTranscript_def
          call_listeners_caught_eq emit_def Let_def split: option.splits)
  then show ?thesis by blast
qed

lemma lastError_stopRecognition [simp]:
  "lastError (snd (stopRecognition stopped s)) = lastError s"
  by (simp add: stopRecognition_def setActiveSession_calls_until_throw abort_def emit_def
        logError_eq Let_def split: option.splits outcome.splits)

section \<open>Restarting recognition\<close>

text \<open>
  C1, evaluated on the code. With both engines bound, recognition is started twice.
  After the first call session 0 is active. The second call clears it and publishes
  session 1, but \<^verbatim>\<open>stopRecognition\<close> then finds no active session and returns at once:
  the trace holds the two engine starts and nothing between them, neither an abort of
  controller 0 nor a call of \<^verbatim>\<open>stt.stop()\<close>. The claim has the first session's
  cancellation token signalled before the second engine start.
\<close>

theorem startRecognition_leaves_prior_token:
  "activeRecognitionSession
       (snd (startRecognition default_recognize_options Resolved 1 bound_state))
     = Some \<lparr>rs_type = continuous, rs_abortController = 0, rs_startedAt = 1\<rparr>
   \<and> activeRecognitionSession restarted_recognition
     = Some \<lparr>rs_type = continuous, rs_abortController = 1, rs_startedAt = 2\<rparr>
   \<and> events restarted_recognition = [SttStart 0 False, SttStart 1 False]
   \<and> \<not> aborted restarted_recognition 0"
  by (simp add: restarted_recognition_def bound_state_eval eval_defs)

section \<open>Silent codes in the error pipeline\<close>

text \<open>
  C2, as amended. An error routed through \<^verbatim>\<open>processVoiceError\<close> with \<^verbatim>\<open>handleError\<close>
  as its handler, whose code after normalisation is ABORTED or NO_SPEECH, adds no line
  to the logging sink, and \<^verbatim>\<open>logError\<close> itself leaves the state as it is for such an
  error. If the code is ABORTED, the recorded last error and the readiness snapshot are
  the same after the call as before it. An error with one of the two codes that the
  recognition engine reports to an \<^verbatim>\<open>onError\<close> handler of the core does not reach the
  pipeline: the handler of a continuous controller leaves the state as it is, the
  handler of a one-shot controller leaves the last error as it is, and the handler of
  \<^verbatim>\<open>recognizeOnce\<close> skips it. Every error whose code is not ABORTED, so every NO_SPEECH
  error, that reaches \<^verbatim>\<open>handleError\<close>, directly or through the pipeline, is the recorded
  last error afterwards and is the error of the readiness snapshot.
\<close>

theorem silent_codes_pipeline:
  "(code (pipeline_error error options) \<in> {ABORTED, NO_SPEECH} \<longrightarrow>
      logged (snd (processVoiceError error ctx (pipeline_options options) s)) = logged s
      \<and> logError (pipeline_error error options) ctx s = s)
   \<and> (code (pipeline_error error options) = ABORTED \<longrightarrow>
      lastError (snd (processVoiceError error ctx (pipeline_options options) s)) = lastError s
      \<and> fst (getQonvoSnapshot (snd (processVoiceError error ctx (pipeline_options options) s)))
          = fst (getQonvoSnapshot s))
   \<and> (code e \<in> {ABORTED, NO_SPEECH} \<longrightarrow>
      continuous_onError ctl e s = s
      \<and> lastError (snd (once_onError ctl e stopped s)) = lastError s
      \<and> recognizeOnce_handlers cap (OnError e # sigs) s = recognizeOnce_handlers cap sigs s)
   \<and> (code e \<noteq> ABORTED \<longrightarrow>
      lastError (handleError e cb s) = Some e
      \<and> q_error (fst (getQonvoSnapshot (handleError e cb s))) = Some e)
   \<and> (code (pipeline_error error options) \<noteq> ABORTED \<longrightarrow>
      lastError (snd (processVoiceError error ctx (pipeline_options options) s))
        = Some (pipeline_error error options)
      \<and> q_error (fst (getQonvoSnapshot
            (snd (processVoiceError error ctx (pipeline_options options) s))))
        = Some (pipeline_error error options))"
proof -
  have handlers: "continuous_onError ctl e s = s
      \<and> lastError (snd (once_onError ctl e stopped s)) = lastError s
      \<and> recognizeOnce_handlers cap (OnError e # sigs) s = recognizeOnce_handlers cap sigs s"
    if "code e \<in> {ABORTED, NO_SPEECH}"
    using that by (auto simp: continuous_onError_def once_onError_def controller_stop_def)
  have silent: "logged (snd (processVoiceError error ctx (pipeline_options options) s)) = logged s
      \<and> logError (pipeline_error error options) ctx s = s"
    if "code (pipeline_error error options) \<in> {ABORTED, NO_SPEECH}"
    using that processVoiceError_silent [of error options ctx s]
    by (auto simp: logError_eq shouldLogError_def SILENT_ERROR_CODES_def)
  have aborted: "lastError (snd (processVoiceError error ctx (pipeline_options options) s))
        = lastError s
      \<and> fst (getQonvoSnapshot (snd (processVoiceError error ctx (pipeline_options options) s)))
          = fst (getQonvoSnapshot s)"
    if "code (pipeline_error error options) = ABORTED"
    using processVoiceError_ABORTED(1,2) [OF that, of ctx s] by simp
  have recorded: "lastError (handleError e cb s) = Some e
      \<and> q_error (fst (getQonvoSnapshot (handleError e cb s))) = Some e"
    if "code e \<noteq> ABORTED"
    using handleError_records [OF that, of cb s] by simp
  have piped: "lastError (snd (processVoiceError error ctx (pipeline_options options) s))
        = Some (pipeline_error error options)
      \<and> q_error (fst (getQonvoSnapshot
            (snd (processVoiceError error ctx (pipeline_options options) s))))
        = Some (pipeline_error error options)"
    if "code (pipeline_error error options) \<noteq> ABORTED"
    using processVoiceError_records [OF that, of ctx s] by simp
  from silent aborted handlers recorded piped show ?thesis
    by blast
qed

text \<open>
  C2, counterexample. A NO_SPEECH error passed through the pipeline, with the options
  \<^verbatim>\<open>startSynthesis\<close> uses, is recorded as the last error and shows in the readiness
  snapshot: \<^verbatim>\<open>handleError\<close> keeps only ABORTED out of the error state.
\<close>

theorem no_speech_becomes_last_error:
  "code no_speech_error = NO_SPEECH
   \<and> lastError bound_state = None
   \<and> lastError (snd (processVoiceError (ThrownVoiceError no_speech_error) ''startSynthesis''
                        synthesis_process_options bound_state)) = Some no_speech_error
   \<and> q_error (fst (getQonvoSnapshot
         (snd (processVoiceError (ThrownVoiceError no_speech_error) ''startSynthesis''
                 synthesis_process_options bound_state)))) = Some no_speech_error
   \<and> lastError (handleError no_speech_error None bound_state) = Some no_speech_error"
  by (simp add: no_speech_error_def synthesis_process_options_def bound_state_eval
        initial_state_def processVoiceError_def handleError_def setError_def notifyQonvo_def
        call_error_callback_def createVoiceError_def shouldLogError_def SILENT_ERROR_CODES_def
        throwVoiceError_def getQonvoSnapshot_def no_options_def Let_def)

text \<open>
  The pipeline on an \<^verbatim>\<open>AbortError\<close>, which normalises to ABORTED: nothing is logged and
  no last error is recorded. A NO_SPEECH error reported to the \<^verbatim>\<open>onError\<close> handler of a
  controller: the state, or at least the last error, stays as it is. The same error
  handed to \<^verbatim>\<open>handleError\<close>, or thrown into the pipeline: nothing is logged and it is the
  last error.
\<close>

theorem silent_codes_pipeline_witness:
  "code (pipeline_error abort_error synthesis_process_options) \<in> {ABORTED, NO_SPEECH}
   \<and> code (pipeline_error abort_error synthesis_process_options) = ABORTED
   \<and> logged (snd (processVoiceError abort_error ''startSynthesis''
                     (pipeline_options synthesis_process_options) bound_state)) = []
   \<and> lastError (snd (processVoiceError abort_error ''startSynthesis''
                     (pipeline_options synthesis_process_options) bound_state)) = None
   \<and> code no_speech_error \<in> {ABORTED, NO_SPEECH}
   \<and> continuous_onError listening_controller no_speech_error bound_state = bound_state
   \<and> lastError (snd (once_onError listening_controller no_speech_error Resolved bound_state))
       = None
   \<and> code no_speech_error \<noteq> ABORTED
   \<and> lastError (handleError no_speech_error None bound_state) = Some no_speech_error
   \<and> code (pipeline_error (ThrownVoiceError no_speech_error) synthesis_process_options)
       \<in> {ABORTED, NO_SPEECH}
   \<and> code (pipeline_error (ThrownVoiceError no_speech_error) synthesis_process_options)
       \<noteq> ABORTED
   \<and> logged (snd (processVoiceError (ThrownVoiceError no_speech_error) ''startSynthesis''
                     (pipeline_options synthesis_process_options) bound_state)) = []
   \<and> lastError (snd (processVoiceError (ThrownVoiceError no_speech_error) ''startSynthesis''
                     (pipeline_options synthesis_process_options) bound_state))
       = Some no_speech_error"
proof -
  have idle: "logged bound_state = []" "lastError bound_state = None"
    by (simp_all add: bound_state_eval initial_state_def logged_def)
  have codes: "code (pipeline_error abort_error synthesis_process_options) = ABORTED"
    "code no_speech_error = NO_SPEECH"
    "pipeline_error (ThrownVoiceError no_speech_error) synthesis_process_options = no_speech_error"
    by (simp_all add: pipeline_error_def abort_error_def synthesis_process_options_def
          no_speech_error_def createVoiceError_def)
  note aborting = silent_codes_pipeline
    [where error = abort_error and options = synthesis_process_options
       and ctx = "''startSynthesis''" and s = bound_state and e = no_speech_error
       and ctl = listening_controller and stopped = Resolved and cb = None]
  note silence = silent_codes_pipeline
    [where error = "ThrownVoiceError no_speech_error" and options = synthesis_process_options
       and ctx = "''startSynthesis''" and s = bound_state]
  from aborting idle codes(1,2)
  have one: "logged (snd (processVoiceError abort_error ''startSynthesis''
                     (pipeline_options synthesis_process_options) bound_state)) = []"
    "lastError (snd (processVoiceError abort_error ''startSynthesis''
                     (pipeline_options synthesis_process_options) bound_state)) = None"
    "continuous_onError listening_controller no_speech_error bound_state = bound_state"
    "lastError (snd (once_onError listening_controller no_speech_error Resolved bound_state))
       = None"
    "lastError (handleError no_speech_error None bound_state) = Some no_speech_error"
    by simp_all
  from silence idle codes(2,3)
  have two: "logged (snd (processVoiceError (ThrownVoiceError no_speech_error) ''startSynthesis''
                     (pipeline_options synthesis_process_options) bound_state)) = []"
    "lastError (snd (processVoiceError (ThrownVoiceError no_speech_error) ''startSynthesis''
                     (pipeline_options synthesis_process_options) bound_state))
       = Some no_speech_error"
    by simp_all
  show ?thesis
    using one two codes by simp
qed

section \<open>Transcript store\<close>

text \<open>
  C3. In every module state reachable from the initial one by the writers of the
  transcript and of its snapshot cache (addInterimTranscript, addFinalTranscript,
  clearTranscript, getTranscriptSnapshot, notifyTranscript), interleaved with any code
  that leaves the two variables alone, each role has at most one non-final entry and
  every entry of the \<open>entries\<close> view that getTranscriptSnapshot returns is final; and
  addFinalTranscript for a role leaves no interim entry of that role and appends the new
  final entry after the entries it keeps.
\<close>

theorem transcript_interim_invariant:
  assumes "transcript_reachable s"
  shows "(\<forall>r. length (interim_entries r (transcript s)) \<le> 1)
   \<and> (\<forall>e \<in> set (entries (fst (getTranscriptSnapshot s))). final e)
   \<and> interim_entries r (transcript (addFinalTranscript r heard newId now s)) = []
   \<and> transcript (addFinalTranscript r heard newId now s) =
       filter (\<lambda>t. \<not> (entry_role t = r \<and> \<not> final t)) (transcript s) @
       [\<lparr>entry_id = newId, entry_role = r, entry_text = heard, entry_at = now, final = True\<rparr>]"
proof -
  have ok: "transcript_ok s"
    using assms by (rule transcript_ok_reachable)
  have one: "length (interim_entries q (transcript s)) \<le> 1" for q
    using ok by (cases q) (simp_all add: transcript_ok_def)
  have fin: "\<forall>e \<in> set (entries (fst (getTranscriptSnapshot s))). final e"
    using entries_final [OF ok] by blast
  show ?thesis
    using one fin interim_entries_addFinal_same [where r = r and s = s]
    by (simp add: addFinalTranscript_def)
qed

text \<open>
  A reachable state with a user interim entry and a final assistant entry: the snapshot
  lists the final entry, one user interim entry exists, and addFinalTranscript for the
  user removes it.
\<close>

theorem transcript_interim_invariant_witness:
  "transcript_reachable (run_transcript_calls sample_calls initial_state)
   \<and> \<lparr>entry_id = ''4-d'', entry_role = assistant, entry_text = ''hi there'', entry_at = 4, final = True\<rparr>
     \<in> set (entries (fst (getTranscriptSnapshot (run_transcript_calls sample_calls initial_state))))
   \<and> final \<lparr>entry_id = ''4-d'', entry_role = assistant, entry_text = ''hi there'', entry_at = 4, final = True\<rparr>
   \<and> length (interim_entries user (transcript (run_transcript_calls sample_calls initial_state))) = 1
   \<and> interim_entries user
         (transcript (addFinalTranscript user ''hello world'' ''5-e'' 5
            (run_transcript_calls sample_calls initial_state))) = []"
proof -
  have reach: "transcript_reachable (run_transcript_calls sample_calls initial_state)"
    by (rule transcript_reachable_calls [OF transcript_reachable.initial])
  from transcript_interim_invariant [OF reach, of user "''hello world''" "''5-e''" 5] reach
  show ?thesis
    by (simp add: sample_calls_def initial_state_def addInterimTranscript_def
          addFinalTranscript_def notifyTranscript_def getTranscriptSnapshot_def
          interim_entries_def Let_def)
qed

section \<open>Enrichment of a constructed error\<close>

text \<open>
  C4. Whatever the message, cause and context, a VoiceError constructed with code ABORTED
  has userAction = true and recoverable = false; with NO_SPEECH it has userAction = false
  and recoverable = true; with PERMISSION_DENIED, NOT_SUPPORTED, TTS_NOT_AVAILABLE or
  STT_NOT_AVAILABLE it has needsPermission = true and recoverable = true; with
  INVALID_STATE it has recoverable = false. The three flags of a constructed error are the
  same for any two constructions with the same code: they are a function of the code alone.
\<close>

theorem createVoiceError_enrichment:
  "userAction (createVoiceError ABORTED msg opts) = Some True
   \<and> recoverable (createVoiceError ABORTED msg opts) = Some False
   \<and> userAction (createVoiceError NO_SPEECH msg opts) = Some False
   \<and> recoverable (createVoiceError NO_SPEECH msg opts) = Some True
   \<and> (c \<in> {PERMISSION_DENIED, NOT_SUPPORTED, TTS_NOT_AVAILABLE, STT_NOT_AVAILABLE} \<longrightarrow>
        needsPermission (createVoiceError c msg opts) = Some True
        \<and> recoverable (createVoiceError c msg opts) = Some True)
   \<and> recoverable (createVoiceError INVALID_STATE msg opts) = Some False
   \<and> userAction (createVoiceError c msg opts) = userAction (createVoiceError c msg' opts')
   \<and> needsPermission (createVoiceError c msg opts) = needsPermission (createVoiceError c msg' opts')
   \<and> recoverable (createVoiceError c msg opts) = recoverable (createVoiceError c msg' opts')"
  by (cases c) (simp_all add: createVoiceError_def)

theorem createVoiceError_enrichment_witness:
  "PERMISSION_DENIED \<in> {PERMISSION_DENIED, NOT_SUPPORTED, TTS_NOT_AVAILABLE, STT_NOT_AVAILABLE}
   \<and> needsPermission (createVoiceError PERMISSION_DENIED ''denied'' no_options) = Some True
   \<and> recoverable (createVoiceError PERMISSION_DENIED ''denied'' no_options) = Some True"
  using createVoiceError_enrichment
    [where c = PERMISSION_DENIED and msg = "''denied''" and opts = no_options]
  by simp

section \<open>Pacing of the conversation loop\<close>

text \<open>
  C5, evaluated on the code. A conversation is started on the bound module and
  \<^verbatim>\<open>onRecognition\<close> is called with an echoing callback and \<^verbatim>\<open>pauseMs: NaN\<close>. The pause
  the loop computes is \<^verbatim>\<open>Math.max(NaN, 500)\<close>, which is NaN and not 500. The user says
  \<^verbatim>\<open>ping\<close>, the response is synthesised, and the loop calls \<^verbatim>\<open>setTimeout\<close> with NaN, a
  timer of 0 ms, and starts the next recognition attempt right after it. Likewise a
  request of \<open>2\<^sup>3\<^sup>1\<close> ms is passed on as it is and gives a timer of 0 ms. The claim, like
  the comment on \<^verbatim>\<open>startConversation\<close>, has a pause of at least 500 ms in every
  iteration.
\<close>

theorem conversation_pause_floor_not_enforced:
  "effective_pauseMs (Some NaN) = NaN
   \<and> timer_delay (effective_pauseMs (Some NaN)) = 0
   \<and> fst (onRecognition (fst conversation_started) echo (Some NaN) [ping_turn, silent_turn]
            (snd conversation_started)) = Suspended
   \<and> events (snd (onRecognition (fst conversation_started) echo (Some NaN)
                     [ping_turn, silent_turn] (snd conversation_started))) =
       [SttStart 0 True, TtsStart ''echo: ping'' 2, Sleep NaN, SttStart 0 True]
   \<and> effective_pauseMs (Some (Finite 2147483648)) = Finite 2147483648
   \<and> timer_delay (effective_pauseMs (Some (Finite 2147483648))) = 0"
proof -
  let ?chain = "fst conversation_started"
  let ?paused = "emit (Sleep NaN) ping_spoken"
  have chain: "ch_caption ?chain = True" "ch_abortController ?chain = 0"
    "ch_method ?chain = continuous_method"
    by (simp_all add: conversation_started_eval)
  have turn: "t_while_listening ping_turn = []" "t_while_responding ping_turn = []"
    "t_while_speaking ping_turn = []" "t_while_pausing ping_turn = []"
    "t_ttsStopped ping_turn = Resolved" "t_ttsStarted ping_turn = Resolved"
    "t_now ping_turn = 3" "t_newId ping_turn = ''3-c''" "t_entryAt ping_turn = 3"
    "t_signals silent_turn = []"
    by (simp_all add: ping_turn_def silent_turn_def)
  have echo: "echo ping_result = Inr ''echo: ping''"
    by (simp add: echo_def ping_result_def)
  have pause: "effective_pauseMs (Some NaN) = NaN"
    by (rule effective_pauseMs_facts)
  have run: "running ?paused" "stt ?paused"
    "events ?paused = [SttStart 0 True, TtsStart ''echo: ping'' 2, Sleep NaN]"
    using ping_spoken_eval(2,3,5) by (simp_all add: running_def emit_def)
  have first: "loop_body True 0 echo NaN ping_turn (snd conversation_started) = (Next, ?paused)"
    using loop_body_success
      [where cap = True and signal = 0 and t = ping_turn and s = "snd conversation_started"
         and callback = echo and result = ping_result and response = "''echo: ping''"
         and ?s1.0 = ping_heard and ?s4.0 = ping_spoken and pauseMs = NaN]
      ping_heard_eval(1,2) ping_spoken_eval(1,2) echo
    by (simp add: turn)
  have second: "fst (loop_body True 0 echo NaN silent_turn ?paused) = Waiting"
    "events (snd (loop_body True 0 echo NaN silent_turn ?paused)) =
       [SttStart 0 True, TtsStart ''echo: ping'' 2, Sleep NaN, SttStart 0 True]"
    using run(2,3)
    by (simp_all add: loop_body_def recognizeOnce_def newAbortController_def emit_def turn
          split: prod.splits)
  obtain w where w: "loop_body True 0 echo NaN silent_turn ?paused = (Waiting, w)"
    using second(1) by (cases "loop_body True 0 echo NaN silent_turn ?paused") simp
  have loop: "onRecognition ?chain echo (Some NaN) [ping_turn, silent_turn] (snd conversation_started) =
      (Suspended, snd (loop_body True 0 echo NaN silent_turn ?paused))"
    using run(1) by (simp add: onRecognition_def chain pause first w)
  have big: "effective_pauseMs (Some (Finite 2147483648)) = Finite 2147483648"
    by (simp add: effective_pauseMs_facts)
  have delays: "timer_delay NaN = 0" "timer_delay (Finite 2147483648) = 0"
    by (simp_all add: timer_delay_def ToInt32_def)
  show ?thesis
    unfolding loop pause big
    using second(2) delays by simp
qed

section \<open>Listener exceptions\<close>

text \<open>
  C6, evaluated on the code. Two synthesis listeners are registered, the first of which
  throws. \<^verbatim>\<open>notifySynthesis\<close> calls both. \<^verbatim>\<open>startSynthesis\<close>, which publishes the new
  session through \<^verbatim>\<open>setActiveSynthesisSession\<close>, calls the first listener only, is
  rejected with that listener's exception, and has neither written the transcript entry
  nor called the engine: the listener's exception is not isolated there.
\<close>

theorem setActiveSession_listener_exception_escapes:
  "synthesisListeners two_listeners_state =
      [\<lparr>lid = 1, lthrows = Some boom\<rparr>, \<lparr>lid = 2, lthrows = None\<rparr>]
   \<and> events (notifySynthesis two_listeners_state) = [Notified Synthesis 1, Notified Synthesis 2]
   \<and> fst (startSynthesis ''hi'' default_synthesize_options Resolved Resolved 1 ''1-a'' 1
            two_listeners_state) = Inl boom
   \<and> events (snd (startSynthesis ''hi'' default_synthesize_options Resolved Resolved 1 ''1-a'' 1
            two_listeners_state)) = [Notified Synthesis 1]
   \<and> transcript (snd (startSynthesis ''hi'' default_synthesize_options Resolved Resolved 1 ''1-a'' 1
            two_listeners_state)) = []"
  by (simp add: two_listeners_state_eval eval_defs)

section \<open>Stopping a session\<close>

text \<open>
  C7, evaluated on the code. A listener that throws is subscribed to the synthesis
  domain while a session plays, and \<^verbatim>\<open>stopSynthesis\<close> is called; the engine would have
  stopped without failure. The call is rejected with the listener's exception: the
  session record is cleared and the listener called, but controller 0 is not aborted
  and \<^verbatim>\<open>tts.stop()\<close> is not called. \<^verbatim>\<open>stopRecognition\<close> does the same with a throwing
  recognition listener. The claim, like the comment in the catch clause of both
  functions, has stop succeed from the caller's perspective.
\<close>

theorem stop_rejected_by_listener_exception:
  "activeSynthesisSession heckled_synthesis =
      Some \<lparr>ss_text = ''hello'', ss_abortController = 0, ss_startedAt = 1, pausedAt = None\<rparr>
   \<and> synthesisListeners heckled_synthesis = [\<lparr>lid = 1, lthrows = Some boom\<rparr>]
   \<and> fst (stopSynthesis Resolved heckled_synthesis) = Inl boom
   \<and> activeSynthesisSession (snd (stopSynthesis Resolved heckled_synthesis)) = None
   \<and> events (snd (stopSynthesis Resolved heckled_synthesis)) =
       [TtsStart ''hello'' 0, Notified Synthesis 1]
   \<and> \<not> aborted (snd (stopSynthesis Resolved heckled_synthesis)) 0
   \<and> activeRecognitionSession heckled_recognition =
      Some \<lparr>rs_type = continuous, rs_abortController = 0, rs_startedAt = 1\<rparr>
   \<and> recognitionListeners heckled_recognition = [\<lparr>lid = 1, lthrows = Some boom\<rparr>]
   \<and> fst (stopRecognition Resolved heckled_recognition) = Inl boom
   \<and> activeRecognitionSession (snd (stopRecognition Resolved heckled_recognition)) = None
   \<and> events (snd (stopRecognition Resolved heckled_recognition)) =
       [SttStart 0 False, Notified Recognition 1]
   \<and> \<not> aborted (snd (stopRecognition Resolved heckled_recognition)) 0"
  by (simp add: heckled_synthesis_def heckled_recognition_def subscribeToSynthesis_def
        subscribeToRecognition_def set_add_def speaking_state_eval bound_state_eval
        boom_def eval_defs)

subsection \<open>Stop when no listener throws\<close>

text \<open>
  For both categories: \<^verbatim>\<open>stop\<close> with no engine bound or no active session returns
  normally and leaves the whole module state, snapshot caches and trace included, as it
  is. What \<^verbatim>\<open>stop\<close> returns does not depend on how the engine's stop call settles. With
  an active session and no throwing listener of that category, \<^verbatim>\<open>stop\<close> returns
  normally, the session is cleared, its controller is aborted, and the logging sink
  gains the lines of the engine's failure exactly when logging is enabled and the
  failure's code is not silent.
\<close>

lemma stop_when_no_listener_throws:
  "(\<not> tts s \<or> activeSynthesisSession s = None \<longrightarrow> stopSynthesis stopped s = (Inr (), s))
   \<and> (\<not> stt s \<or> activeRecognitionSession s = None \<longrightarrow> stopRecognition stopped s = (Inr (), s))
   \<and> fst (stopSynthesis stopped s) = fst (stopSynthesis Resolved s)
   \<and> fst (stopRecognition stopped s) = fst (stopRecognition Resolved s)
   \<and> (tts s \<and> activeSynthesisSession s = Some a
        \<and> (\<forall>l \<in> set (synthesisListeners s). lthrows l = None) \<longrightarrow>
          fst (stopSynthesis stopped s) = Inr ()
        \<and> activeSynthesisSession (snd (stopSynthesis stopped s)) = None
        \<and> aborted (snd (stopSynthesis stopped s)) (ss_abortController a)
        \<and> logged (snd (stopSynthesis stopped s)) =
            logged s @ stop_log stopped TTS_FAILED ''stopSynthesis'' s)
   \<and> (stt s \<and> activeRecognitionSession s = Some b
        \<and> (\<forall>l \<in> set (recognitionListeners s). lthrows l = None) \<longrightarrow>
          fst (stopRecognition stopped s) = Inr ()
        \<and> activeRecognitionSession (snd (stopRecognition stopped s)) = None
        \<and> aborted (snd (stopRecognition stopped s)) (rs_abortController b)
        \<and> logged (snd (stopRecognition stopped s)) =
            logged s @ stop_log stopped STT_FAILED ''stopRecognition'' s)"
proof -
  have syn: "fst (stopSynthesis stopped s) = Inr ()
        \<and> activeSynthesisSession (snd (stopSynthesis stopped s)) = None
        \<and> aborted (snd (stopSynthesis stopped s)) (ss_abortController a)
        \<and> logged (snd (stopSynthesis stopped s)) =
            logged s @ stop_log stopped TTS_FAILED ''stopSynthesis'' s"
    if "tts s" "activeSynthesisSession s = Some a"
      "\<forall>l \<in> set (synthesisListeners s). lthrows l = None"
    using stopSynthesis_active [OF that, of stopped]
    by (simp add: aborted_def logged_def stop_log_def split: outcome.splits)
  have rec: "fst (stopRecognition stopped s) = Inr ()
        \<and> activeRecognitionSession (snd (stopRecognition stopped s)) = None
        \<and> aborted (snd (stopRecognition stopped s)) (rs_abortController b)
        \<and> logged (snd (stopRecognition stopped s)) =
            logged s @ stop_log stopped STT_FAILED ''stopRecognition'' s"
    if "stt s" "activeRecognitionSession s = Some b"
      "\<forall>l \<in> set (recognitionListeners s). lthrows l = None"
    using stopRecognition_active [OF that, of stopped]
    by (simp add: aborted_def logged_def stop_log_def split: outcome.splits)
  show ?thesis
    using syn rec stopSynthesis_noop [of s stopped] stopRecognition_noop [of s stopped]
    by (simp add: stopSynthesis_result stopRecognition_result)
qed

text \<open>
  With nothing active both stops leave the state alone; with a recognition and a
  synthesis session active, a failing engine stop is swallowed, the controller is
  aborted, and the failure is logged under the default code.
\<close>

lemma stop_engine_failure_example:
  "(activeSynthesisSession bound_state = None
      \<and> stopSynthesis (Rejected boom) bound_state = (Inr (), bound_state))
   \<and> (activeRecognitionSession bound_state = None
      \<and> stopRecognition (Rejected boom) bound_state = (Inr (), bound_state))
   \<and> (tts busy_state \<and> activeSynthesisSession busy_state =
          Some \<lparr>ss_text = ''hello'', ss_abortController = 1, ss_startedAt = 1, pausedAt = None\<rparr>
      \<and> synthesisListeners busy_state = []
      \<and> fst (stopSynthesis (Rejected boom) busy_state) = Inr ()
      \<and> aborted (snd (stopSynthesis (Rejected boom) busy_state)) 1
      \<and> logged (snd (stopSynthesis (Rejected boom) busy_state)) =
           [LogLine ''[Qonvo:stopSynthesis]'' TTS_FAILED ''boom'',
            CauseLine \<lparr>err_name = ''Error'', err_message = ''boom''\<rparr>])
   \<and> (stt busy_state \<and> activeRecognitionSession busy_state =
          Some \<lparr>rs_type = continuous, rs_abortController = 0, rs_startedAt = 1\<rparr>
      \<and> recognitionListeners busy_state = []
      \<and> fst (stopRecognition (Rejected boom) busy_state) = Inr ()
      \<and> aborted (snd (stopRecognition (Rejected boom) busy_state)) 0
      \<and> logged (snd (stopRecognition (Rejected boom) busy_state)) =
           [LogLine ''[Qonvo:stopRecognition]'' STT_FAILED ''boom'',
            CauseLine \<lparr>err_name = ''Error'', err_message = ''boom''\<rparr>])"
proof -
  let ?a = "\<lparr>ss_text = ''hello'', ss_abortController = 1, ss_startedAt = 1, pausedAt = None\<rparr>"
  let ?b = "\<lparr>rs_type = continuous, rs_abortController = 0, rs_startedAt = 1\<rparr>"
  have idle: "activeSynthesisSession bound_state = None" "activeRecognitionSession bound_state = None"
    by (simp_all add: bound_state_eval initial_state_def)
  have busy: "tts busy_state" "activeSynthesisSession busy_state = Some ?a"
    "\<forall>l \<in> set (synthesisListeners busy_state). lthrows l = None"
    "stt busy_state" "activeRecognitionSession busy_state = Some ?b"
    "\<forall>l \<in> set (recognitionListeners busy_state). lthrows l = None"
    "logged busy_state = []" "errorLoggingEnabled busy_state"
    "synthesisListeners busy_state = []" "recognitionListeners busy_state = []"
    by (simp_all add: busy_state_eval initial_state_def logged_def)
  have lines: "stop_log (Rejected boom) TTS_FAILED ''stopSynthesis'' busy_state =
           [LogLine ''[Qonvo:stopSynthesis]'' TTS_FAILED ''boom'',
            CauseLine \<lparr>err_name = ''Error'', err_message = ''boom''\<rparr>]"
    "stop_log (Rejected boom) STT_FAILED ''stopRecognition'' busy_state =
           [LogLine ''[Qonvo:stopRecognition]'' STT_FAILED ''boom'',
            CauseLine \<lparr>err_name = ''Error'', err_message = ''boom''\<rparr>]"
    using busy(8)
    by (simp_all add: stop_log_def boom_def log_lines_def log_prefix_def createVoiceError_def
          shouldLogError_def SILENT_ERROR_CODES_def)
  have A: "stopSynthesis (Rejected boom) bound_state = (Inr (), bound_state)"
    "stopRecognition (Rejected boom) bound_state = (Inr (), bound_state)"
    using stop_when_no_listener_throws [of bound_state "Rejected boom"] idle by blast+
  have B: "fst (stopSynthesis (Rejected boom) busy_state) = Inr ()"
    "aborted (snd (stopSynthesis (Rejected boom) busy_state)) (ss_abortController ?a)"
    "logged (snd (stopSynthesis (Rejected boom) busy_state)) =
       logged busy_state @ stop_log (Rejected boom) TTS_FAILED ''stopSynthesis'' busy_state"
    "fst (stopRecognition (Rejected boom) busy_state) = Inr ()"
    "aborted (snd (stopRecognition (Rejected boom) busy_state)) (rs_abortController ?b)"
    "logged (snd (stopRecognition (Rejected boom) busy_state)) =
       logged busy_state @ stop_log (Rejected boom) STT_FAILED ''stopRecognition'' busy_state"
    using stop_when_no_listener_throws [of busy_state "Rejected boom" ?a ?b] busy(1-6) by blast+
  show ?thesis
    using A B idle busy(1,2,4,5,7,9,10) lines by simp
qed

section \<open>Phrase triggers\<close>

text \<open>
  C8, evaluated on the code. The triggers \<^verbatim>\<open>yes\<close> and \<^verbatim>\<open>yes please\<close> are registered in
  this order on a continuous controller, the callback of the first one throwing, and
  the final result is \<^verbatim>\<open>yes please\<close>. Both phrases match. The handler writes the
  transcript entry and calls the first callback with controller 0; the exception leaves
  the loop over the triggers and the handler, and the second callback is never called.
  On a one-shot controller the same happens, and the promise of the controller stays
  pending and recognition is not stopped. The claim has every matching callback
  invoked.
\<close>

theorem trigger_exception_skips_later_triggers:
  "startRecognition default_recognize_options Resolved 1 bound_state =
     (Inr listening_controller, listening_state)
   \<and> triggers (register throwing_triggers listening_controller) = throwing_triggers
   \<and> matchPhrase ''yes please'' ''yes''
   \<and> matchPhrase ''yes please'' ''yes please''
   \<and> fst (continuous_onFinal (register throwing_triggers listening_controller)
             ''yes please'' ''2-b'' 2 listening_state) = Some boom
   \<and> events (snd (continuous_onFinal (register throwing_triggers listening_controller)
                      ''yes please'' ''2-b'' 2 listening_state)) =
       [SttStart 0 False, Triggered 1 0]
   \<and> transcript (snd (continuous_onFinal (register throwing_triggers listening_controller)
                          ''yes please'' ''2-b'' 2 listening_state)) =
       [\<lparr>entry_id = ''2-b'', entry_role = user, entry_text = ''yes please'', entry_at = 2,
         final = True\<rparr>]
   \<and> startRecognition once_options Resolved 1 bound_state = (Inr once_controller, once_state)
   \<and> triggers (register throwing_triggers once_controller) = throwing_triggers
   \<and> fst (once_onFinal (register throwing_triggers once_controller)
             ''yes please'' None ''2-b'' 2 Resolved once_state) = Some boom
   \<and> promise (fst (snd (once_onFinal (register throwing_triggers once_controller)
                            ''yes please'' None ''2-b'' 2 Resolved once_state))) = Pending
   \<and> events (snd (snd (once_onFinal (register throwing_triggers once_controller)
                           ''yes please'' None ''2-b'' 2 Resolved once_state))) =
       [SttStart 0 False, Triggered 1 0]"
proof -
  let ?ctl = "register throwing_triggers listening_controller"
  let ?once = "register throwing_triggers once_controller"
  have started: "startRecognition default_recognize_options Resolved 1 bound_state =
      (Inr listening_controller, listening_state)"
    by (rule listening_eval)
  have started_once: "startRecognition once_options Resolved 1 bound_state =
      (Inr once_controller, once_state)"
    unfolding once_state_def
    by (rule prod_eqI)
       (simp_all add: once_controller_def once_options_def bound_state_eval eval_defs)
  have regs: "triggers ?ctl = throwing_triggers" "triggers ?once = throwing_triggers"
    by (rule register_distinct,
        simp_all add: throwing_triggers_def listening_controller_def once_controller_def)+
  have sess: "rs_abortController (session ?ctl) = 0" "rs_abortController (session ?once) = 0"
    "promise ?once = Pending"
    by (simp_all add: register_def throwing_triggers_def when_then_def
          listening_controller_def once_controller_def)
  have m: "matchPhrase ''yes please'' ''yes''" "matchPhrase ''yes please'' ''yes please''"
    by code_simp+
  have st: "events listening_state = [SttStart 0 False]" "transcript listening_state = []"
    "transcriptListeners listening_state = []"
    "events once_state = [SttStart 0 False]" "transcriptListeners once_state = []"
    by (simp_all add: listening_state_def once_state_def once_options_def bound_state_eval
          eval_defs)
  have run: "continuous_onFinal ?ctl ''yes please'' ''2-b'' 2 listening_state =
      (Some boom, emit (Triggered 1 0)
                    (addFinalTranscript user ''yes please'' ''2-b'' 2 listening_state))"
    unfolding continuous_onFinal_def regs sess
    using m by (simp add: throwing_triggers_def)
  have run_once: "once_onFinal ?once ''yes please'' None ''2-b'' 2 Resolved once_state =
      (Some boom, ?once,
       emit (Triggered 1 0) (addFinalTranscript user ''yes please'' ''2-b'' 2 once_state))"
    unfolding once_onFinal_def regs sess
    using m by (simp add: throwing_triggers_def)
  show ?thesis
    unfolding run run_once using started started_once regs m st sess(3)
    by (simp add: emit_def addFinalTranscript_def notifyTranscript_def
          call_listeners_caught_eq listener_error_lines_def)
qed

subsection \<open>Matching, and dispatch when no callback throws\<close>

text \<open>
  \<^verbatim>\<open>matchPhrase\<close> holds exactly when the normalised phrase is a contiguous part of
  the normalised result text. Normalisation does not see letter case (strings that
  agree after \<^verbatim>\<open>toLowerCase\<close> normalise alike) and treats white space uniformly: white
  space at either end is dropped, any white-space character counts as a space, and a
  run of white space counts as one. Registering triggers for distinct phrases on
  a fresh controller leaves the trigger map in registration order. On a final result
  delivered to a controller, in continuous and in one-shot mode, when no callback of a
  matching trigger throws, the handler returns normally and what it appends to the
  trace after writing the final transcript entry is one call for every trigger of the
  map whose phrase matches, each with the controller itself, in the order of the map
  (in one-shot mode followed by the events of the automatic stop).
\<close>

lemma matching_triggers_fire_in_map_order:
  "(matchPhrase heard phrase \<longleftrightarrow> (\<exists>pre suf. normalize heard = pre @ normalize phrase @ suf))
   \<and> (toLowerCase x = toLowerCase y \<longrightarrow> normalize x = normalize y)
   \<and> (is_space a \<longrightarrow>
        normalize (a # x) = normalize x
        \<and> normalize (x @ [a]) = normalize x
        \<and> normalize (xs @ a # ys) = normalize (xs @ CHR '' '' # ys))
   \<and> (is_space a \<and> is_space b \<longrightarrow> normalize (xs @ a # b # ys) = normalize (xs @ a # ys))
   \<and> (distinct (map fst regs) \<and> triggers fresh = [] \<longrightarrow> triggers (register regs fresh) = regs)
   \<and> ((\<forall>(p, callback) \<in> set (triggers ctl). matchPhrase heard p \<longrightarrow> cb_throws callback = None) \<longrightarrow>
        fst (continuous_onFinal ctl heard newId now s) = None
        \<and> events (snd (continuous_onFinal ctl heard newId now s)) =
            events (addFinalTranscript user heard newId now s) @
            trigger_events (rs_abortController (session ctl)) heard (triggers ctl)
        \<and> fst (once_onFinal ctl heard confidence newId now stopped s) = None
        \<and> (\<exists>rest. events (snd (snd (once_onFinal ctl heard confidence newId now stopped s))) =
            events (addFinalTranscript user heard newId now s) @
            trigger_events (rs_abortController (session ctl)) heard (triggers ctl) @ rest))"
proof -
  have a: "matchPhrase heard phrase \<longleftrightarrow> (\<exists>pre suf. normalize heard = pre @ normalize phrase @ suf)"
    by (simp add: matchPhrase_def string_includes_iff)
  have b: "normalize x = normalize y" if "toLowerCase x = toLowerCase y"
    using that by (rule normalize_case_insensitive)
  have c: "normalize (a # x) = normalize x \<and> normalize (x @ [a]) = normalize x
        \<and> normalize (xs @ a # ys) = normalize (xs @ CHR '' '' # ys)" if "is_space a"
    using normalize_leading [OF that] normalize_trailing [OF that] normalize_any_space [OF that]
    by blast
  have c': "normalize (xs @ a # b # ys) = normalize (xs @ a # ys)" if "is_space a" "is_space b"
    using that by (rule normalize_run)
  have d: "triggers (register regs fresh) = regs" if "distinct (map fst regs)" "triggers fresh = []"
    using that by (rule register_distinct)
  have e: "fst (continuous_onFinal ctl heard newId now s) = None
        \<and> events (snd (continuous_onFinal ctl heard newId now s)) =
            events (addFinalTranscript user heard newId now s) @
            trigger_events (rs_abortController (session ctl)) heard (triggers ctl)
        \<and> fst (once_onFinal ctl heard confidence newId now stopped s) = None
        \<and> (\<exists>rest. events (snd (snd (once_onFinal ctl heard confidence newId now stopped s))) =
            events (addFinalTranscript user heard newId now s) @
            trigger_events (rs_abortController (session ctl)) heard (triggers ctl) @ rest)"
    if "\<forall>(p, callback) \<in> set (triggers ctl). matchPhrase heard p \<longrightarrow> cb_throws callback = None"
    using continuous_onFinal_no_throw [OF that] once_onFinal_no_throw(1,2) [OF that]
    by simp
  from a b c c' d e show ?thesis by blast
qed

text \<open>
  The scenario of the specification with a third, non-matching trigger: \<^verbatim>\<open>yes\<close>,
  \<^verbatim>\<open>yes please\<close> and \<^verbatim>\<open>no thanks\<close> registered in this order on a continuous
  controller, and the final result \<^verbatim>\<open>Yes  PLEASE\<close>, with upper case and a double space:
  it normalises to \<^verbatim>\<open>yes please\<close>, as it does with a leading tab or with a tab for the
  second space, and the first two callbacks are called, in this order, with controller 0.
\<close>

lemma matching_triggers_example:
  "distinct (map fst yes_triggers)
   \<and> triggers listening_controller = []
   \<and> triggers (register yes_triggers listening_controller) = yes_triggers
   \<and> toLowerCase ''Yes  PLEASE'' = toLowerCase ''yes  please''
   \<and> normalize ''Yes  PLEASE'' = normalize ''yes  please''
   \<and> normalize ''yes  please'' = ''yes please''
   \<and> is_space (CHR 0x09)
   \<and> is_space CHR '' ''
   \<and> normalize (CHR 0x09 # ''Yes  PLEASE'') = normalize ''Yes  PLEASE''
   \<and> normalize (''Yes'' @ CHR '' '' # CHR 0x09 # ''PLEASE'') = normalize ''Yes  PLEASE''
   \<and> matchPhrase ''Yes  PLEASE'' ''yes''
   \<and> matchPhrase ''Yes  PLEASE'' ''yes please''
   \<and> events (snd (continuous_onFinal (register yes_triggers listening_controller)
                      ''Yes  PLEASE'' ''2-b'' 2 listening_state)) =
       [SttStart 0 False, Triggered 1 0, Triggered 2 0]"
proof -
  let ?ctl = "register yes_triggers listening_controller"
  have d: "distinct (map fst yes_triggers)" "triggers listening_controller = []"
    by (simp_all add: yes_triggers_def listening_controller_def)
  have lc: "toLowerCase ''Yes  PLEASE'' = toLowerCase ''yes  please''"
    by code_simp
  have sp: "is_space (CHR 0x09)" "is_space CHR '' ''"
    by (simp_all add: is_space_def)
  have nf: "normalize ''yes  please'' = ''yes please''"
    by code_simp
  note inst = matching_triggers_fire_in_map_order
    [where regs = yes_triggers and fresh = listening_controller and ctl = ?ctl
       and heard = "''Yes  PLEASE''" and x = "''Yes  PLEASE''" and y = "''yes  please''"
       and a = "CHR 0x09" and newId = "''2-b''" and now = 2 and s = listening_state]
  note inst2 = matching_triggers_fire_in_map_order
    [where a = "CHR '' ''" and b = "CHR 0x09" and xs = "''Yes''" and ys = "''PLEASE''"]
  from inst d have regs: "triggers ?ctl = yes_triggers" by blast
  from inst lc have ci: "normalize ''Yes  PLEASE'' = normalize ''yes  please''"
    by blast
  from inst sp(1) have lead: "normalize (CHR 0x09 # ''Yes  PLEASE'') = normalize ''Yes  PLEASE''"
    by blast
  from inst2 sp have "normalize (''Yes'' @ CHR '' '' # CHR 0x09 # ''PLEASE'') =
      normalize (''Yes'' @ CHR '' '' # ''PLEASE'')"
    by blast
  moreover have "normalize (''Yes'' @ CHR '' '' # ''PLEASE'') = normalize ''Yes  PLEASE''"
    by code_simp
  ultimately have run: "normalize (''Yes'' @ CHR '' '' # CHR 0x09 # ''PLEASE'') =
      normalize ''Yes  PLEASE''"
    by simp
  have nothrow: "\<forall>(p, callback) \<in> set (triggers ?ctl).
      matchPhrase ''Yes  PLEASE'' p \<longrightarrow> cb_throws callback = None"
    unfolding regs by (simp add: yes_triggers_def)
  from inst nothrow
  have ev: "events (snd (continuous_onFinal ?ctl ''Yes  PLEASE'' ''2-b'' 2 listening_state)) =
            events (addFinalTranscript user ''Yes  PLEASE'' ''2-b'' 2 listening_state) @
            trigger_events (rs_abortController (session ?ctl)) ''Yes  PLEASE'' (triggers ?ctl)"
    by blast
  have sess: "rs_abortController (session ?ctl) = 0"
    by (simp add: register_def yes_triggers_def when_then_def listening_controller_def)
  have te: "trigger_events 0 ''Yes  PLEASE'' yes_triggers = [Triggered 1 0, Triggered 2 0]"
    using yes_matches by (simp add: trigger_events_def yes_triggers_def)
  have af: "events (addFinalTranscript user ''Yes  PLEASE'' ''2-b'' 2 listening_state) = [SttStart 0 False]"
    by (simp add: addFinalTranscript_def notifyTranscript_def listening_state_events)
  show ?thesis
    unfolding ev sess regs te af
    using d regs lc ci nf sp lead run yes_matches(1,2) by simp
qed

section \<open>Pausing and resuming synthesis\<close>

text \<open>
  C9, counterexample. On a session paused at time 5 (the snapshot says paused), a second
  \<^verbatim>\<open>pauseSynthesis\<close> at time 9 calls the engine's \<^verbatim>\<open>pause\<close> again and overwrites
  \<^verbatim>\<open>pausedAt\<close>: the guard of \<^verbatim>\<open>pauseSynthesis\<close> tests for a session, not for one
  that is not yet paused.
\<close>

theorem pause_acts_when_already_paused:
  "activeSynthesisSession paused_state =
      Some \<lparr>ss_text = ''hello'', ss_abortController = 0, ss_startedAt = 1, pausedAt = Some 5\<rparr>
   \<and> syn_isPaused (fst (getSynthesisSnapshot paused_state))
   \<and> activeSynthesisSession (snd (pauseSynthesis Resolved 9 paused_state)) =
      Some \<lparr>ss_text = ''hello'', ss_abortController = 0, ss_startedAt = 1, pausedAt = Some 9\<rparr>
   \<and> events (snd (pauseSynthesis Resolved 9 paused_state)) =
      [TtsStart ''hello'' 0, TtsPause, TtsPause]"
  by (simp add: paused_state_def speaking_state_eval getSynthesisSnapshot_def eval_defs)

text \<open>
  C9, as amended. \<^verbatim>\<open>pauseSynthesis\<close> without a bound engine or without a session, and
  \<^verbatim>\<open>resumeSynthesis\<close> without a bound engine, without a session or with a session that
  is not paused, leave the module state as it is. With a session \<open>a\<close>, a pause whose
  engine call succeeds leaves the same session with \<^verbatim>\<open>pausedAt\<close> set to the current time,
  drops the cached snapshot and calls the synthesis listeners; with a paused session
  (\<^verbatim>\<open>pausedAt\<close> not 0) a resume does the same with \<^verbatim>\<open>pausedAt\<close> removed. When the engine
  call fails the session is as before. Neither call allocates a controller, so neither
  creates a session.
\<close>

theorem pause_resume_existing_session:
  "(\<not> tts s \<or> activeSynthesisSession s = None \<longrightarrow> pauseSynthesis paused now s = (Inr (), s))
   \<and> (\<not> tts s \<or> (case activeSynthesisSession s of None \<Rightarrow> True | Some a \<Rightarrow> pausedAt a = None) \<longrightarrow>
        resumeSynthesis resumed s = (Inr (), s))
   \<and> (tts s \<and> activeSynthesisSession s = Some a \<longrightarrow>
        activeSynthesisSession (snd (pauseSynthesis Resolved now s)) = Some (a\<lparr>pausedAt := Some now\<rparr>)
        \<and> cachedSynthesisSnapshot (snd (pauseSynthesis Resolved now s)) = None
        \<and> events (snd (pauseSynthesis Resolved now s)) =
             events s @ TtsPause # map (\<lambda>l. Notified Synthesis (lid l))
                                     (called_until_throw (synthesisListeners s))
        \<and> activeSynthesisSession (snd (pauseSynthesis (Rejected t) now s)) = Some a)
   \<and> (tts s \<and> activeSynthesisSession s = Some a \<and> pausedAt a = Some p \<and> p \<noteq> 0 \<longrightarrow>
        activeSynthesisSession (snd (resumeSynthesis Resolved s)) = Some (a\<lparr>pausedAt := None\<rparr>)
        \<and> cachedSynthesisSnapshot (snd (resumeSynthesis Resolved s)) = None
        \<and> events (snd (resumeSynthesis Resolved s)) =
             events s @ TtsResume # map (\<lambda>l. Notified Synthesis (lid l))
                                      (called_until_throw (synthesisListeners s))
        \<and> activeSynthesisSession (snd (resumeSynthesis (Rejected t) s)) = Some a)
   \<and> nextController (snd (pauseSynthesis paused now s)) = nextController s
   \<and> nextController (snd (resumeSynthesis resumed s)) = nextController s"
  using pauseSynthesis_noop [of s paused now] resumeSynthesis_noop [of s resumed]
    pauseSynthesis_acts [where s = s and a = a and now = now]
    resumeSynthesis_acts [where s = s and a = a and p = p]
    pause_resume_no_allocation(1) [of paused now s] pause_resume_no_allocation(2) [of resumed s]
  by blast

text \<open>
  Pause and resume on the idle module, pause on a playing session, resume on the paused
  one.
\<close>

theorem pause_resume_existing_session_witness:
  "(activeSynthesisSession bound_state = None
      \<and> pauseSynthesis Resolved 5 bound_state = (Inr (), bound_state)
      \<and> resumeSynthesis Resolved bound_state = (Inr (), bound_state))
   \<and> (tts speaking_state
      \<and> activeSynthesisSession speaking_state =
          Some \<lparr>ss_text = ''hello'', ss_abortController = 0, ss_startedAt = 1, pausedAt = None\<rparr>
      \<and> activeSynthesisSession (snd (pauseSynthesis Resolved 5 speaking_state)) =
          Some \<lparr>ss_text = ''hello'', ss_abortController = 0, ss_startedAt = 1, pausedAt = Some 5\<rparr>)
   \<and> (tts paused_state
      \<and> activeSynthesisSession paused_state =
          Some \<lparr>ss_text = ''hello'', ss_abortController = 0, ss_startedAt = 1, pausedAt = Some 5\<rparr>
      \<and> (5::nat) \<noteq> 0
      \<and> activeSynthesisSession (snd (resumeSynthesis Resolved paused_state)) =
          Some \<lparr>ss_text = ''hello'', ss_abortController = 0, ss_startedAt = 1, pausedAt = None\<rparr>)"
proof -
  let ?a = "\<lparr>ss_text = ''hello'', ss_abortController = 0, ss_startedAt = 1, pausedAt = None\<rparr>"
  let ?p = "\<lparr>ss_text = ''hello'', ss_abortController = 0, ss_startedAt = 1, pausedAt = Some 5\<rparr>"
  have idle: "activeSynthesisSession bound_state = None"
    by (simp add: bound_state_eval initial_state_def)
  have speaking: "tts speaking_state" "activeSynthesisSession speaking_state = Some ?a"
    by (simp_all add: speaking_state_eval initial_state_def)
  have paused: "tts paused_state" "activeSynthesisSession paused_state = Some ?p"
    by (simp_all add: paused_state_def speaking_state_eval eval_defs)
  have A: "pauseSynthesis Resolved 5 bound_state = (Inr (), bound_state)"
    "resumeSynthesis Resolved bound_state = (Inr (), bound_state)"
    using pause_resume_existing_session [of bound_state Resolved 5 Resolved] idle by simp_all
  have B: "activeSynthesisSession (snd (pauseSynthesis Resolved 5 speaking_state)) =
             Some (?a\<lparr>pausedAt := Some 5\<rparr>)"
    using pause_resume_existing_session [of speaking_state Resolved 5 Resolved ?a] speaking
    by blast
  have C: "activeSynthesisSession (snd (resumeSynthesis Resolved paused_state)) =
             Some (?p\<lparr>pausedAt := None\<rparr>)"
    using pause_resume_existing_session [of paused_state Resolved 5 Resolved ?p _ 5] paused
    by simp
  show ?thesis
    using idle speaking paused A B C by simp
qed

section \<open>A failing synthesis start\<close>

text \<open>
  C10. Whenever \<^verbatim>\<open>startSynthesis\<close> gets as far as the engine's \<^verbatim>\<open>start\<close> call and that
  call fails, with whatever error, the transcript afterwards is the transcript before
  without the assistant's interim entries, followed by the final assistant entry for the
  text; and no synthesis session is active.
\<close>

theorem startSynthesis_failure_keeps_transcript:
  assumes "startSynthesis_begin txt options stopped now newId entryAt s = (Inr c, s1)"
  shows "transcript (snd (startSynthesis txt options stopped (Rejected error) now newId entryAt s)) =
           filter (\<lambda>t. \<not> (entry_role t = assistant \<and> \<not> final t)) (transcript s) @
           [\<lparr>entry_id = newId, entry_role = assistant, entry_text = txt,
             entry_at = entryAt, final = True\<rparr>]
         \<and> activeSynthesisSession
             (snd (startSynthesis txt options stopped (Rejected error) now newId entryAt s)) = None"
proof -
  note reached = startSynthesis_begin_reached [OF assms]
  obtain r s2 where p: "processVoiceError error ''startSynthesis''
         \<lparr>po_defaultCode = Some TTS_FAILED, po_onError = so_onError options,
          po_handleError = Some handleError, po_shouldThrow = Some True\<rparr> s1 = (r, s2)"
    by (cases "processVoiceError error ''startSynthesis''
         \<lparr>po_defaultCode = Some TTS_FAILED, po_onError = so_onError options,
          po_handleError = Some handleError, po_shouldThrow = Some True\<rparr> s1")
  have s2: "transcript s2 = transcript s1" "activeSynthesisSession s2 = activeSynthesisSession s1"
    using processVoiceError_frame [of error "''startSynthesis''" "Some TTS_FAILED"
        "so_onError options" "Some True" s1] p by simp_all
  show ?thesis
    using assms p s2 reached(1,2)
    by (cases r)
       (simp_all add: startSynthesis_def startSynthesis_settle_def startSynthesis_finally_frame)
qed

text \<open>
  On the bound, idle module the engine call is reached; after its failure the transcript
  holds the entry and the session is gone.
\<close>

theorem startSynthesis_failure_keeps_transcript_witness:
  "startSynthesis_begin ''hello'' default_synthesize_options Resolved 1 ''1-a'' 1 bound_state =
     (Inr 0, speaking_state)
   \<and> transcript (snd (startSynthesis ''hello'' default_synthesize_options Resolved (Rejected boom)
                         1 ''1-a'' 1 bound_state)) =
       [\<lparr>entry_id = ''1-a'', entry_role = assistant, entry_text = ''hello'',
         entry_at = 1, final = True\<rparr>]
   \<and> activeSynthesisSession
         (snd (startSynthesis ''hello'' default_synthesize_options Resolved (Rejected boom)
                 1 ''1-a'' 1 bound_state)) = None"
proof -
  have reached: "startSynthesis_begin ''hello'' default_synthesize_options Resolved 1 ''1-a'' 1
                   bound_state = (Inr 0, speaking_state)"
    unfolding speaking_state_def
    by (rule prod_eqI) (simp_all add: bound_state_eval eval_defs)
  have "transcript bound_state = []"
    by (simp add: bound_state_eval initial_state_def)
  with startSynthesis_failure_keeps_transcript [OF reached, of boom] reached
  show ?thesis by simp
qed

end
